theory Spec2Isabelle
  imports Main "HOL-Library.Char_ord" "HOL-Library.List_Lexorder" "HOL-Library.Multiset"
begin

section \<open>JavaScript values held by the clinic records\<close>

text \<open>
  The records of the clinic are flat JavaScript objects: every property holds a scalar.
  Numbers are the integers the forms produce, together with \<open>NaN\<close> (what
  \<^verbatim>\<open>parseInt\<close> gives on an empty field); \<open>undefined\<close> is a property value of
  its own. A string is the list of its code units, those below 256 (the characters
  of HOL), ordered code unit by code unit as the relational operators of JavaScript and
  the key order of IndexedDB do.
\<close>

datatype jsval = JUndefined | JNull | JBool bool | JNum int | JNaN | JStr string

type_synonym jsobj = "string \<rightharpoonup> jsval"

datatype error = DataError | ConstraintError | NotFoundError | SyntaxError

section \<open>The IndexedDB object store underneath \<^verbatim>\<open>DatabaseService\<close>\<close>

text \<open>
  \<^verbatim>\<open>database.js\<close> forwards every call to an object store of the browser. The
  store is modelled as IndexedDB defines it: a list of records (key, value) in ascending
  key order, the key read from the value at the store's key path, and a list of indexes,
  each with a key path and a uniqueness flag. A valid key is a number other than
  \<open>NaN\<close> or a string; numbers order before strings.
\<close>

datatype idbkey = KNum int | KStr string

instantiation idbkey :: linorder
begin

fun less_eq_idbkey :: "idbkey \<Rightarrow> idbkey \<Rightarrow> bool" where
  "less_eq_idbkey (KNum a) (KNum b) = (a \<le> b)"
| "less_eq_idbkey (KNum a) (KStr t) = True"
| "less_eq_idbkey (KStr s) (KNum b) = False"
| "less_eq_idbkey (KStr s) (KStr t) = (s \<le> t)"

definition less_idbkey :: "idbkey \<Rightarrow> idbkey \<Rightarrow> bool" where
  "less_idbkey a b = (a \<le> b \<and> \<not> b \<le> a)"

instance
proof
  fix x y z :: idbkey
  show "(x < y) = (x \<le> y \<and> \<not> y \<le> x)"
    by (simp add: less_idbkey_def)
  show "x \<le> x"
    by (cases x) simp_all
  show "x \<le> y \<Longrightarrow> y \<le> z \<Longrightarrow> x \<le> z"
    by (cases x; cases y; cases z) auto
  show "x \<le> y \<Longrightarrow> y \<le> x \<Longrightarrow> x = y"
    by (cases x; cases y) auto
  show "x \<le> y \<or> y \<le> x"
    by (cases x; cases y) auto
qed

end

fun to_key :: "jsval \<Rightarrow> idbkey option" where
  "to_key (JNum n) = Some (KNum n)"
| "to_key (JStr s) = Some (KStr s)"
| "to_key v = None"

fun key_val :: "idbkey \<Rightarrow> jsval" where
  "key_val (KNum n) = JNum n"
| "key_val (KStr s) = JStr s"

text \<open>
  Evaluating a key path on a value. The key paths of the configuration are plain
  property names, so the evaluation is one property read; a missing property and a
  property whose value is no valid key both give no key.
\<close>

definition extract_key :: "string \<Rightarrow> jsobj \<Rightarrow> idbkey option" where
  "extract_key keyPath item = (case item keyPath of None \<Rightarrow> None | Some v \<Rightarrow> to_key v)"

record index_config =
  idx_name :: string
  idx_keyPath :: string
  idx_unique :: bool

record store_config =
  st_name :: string
  st_keyPath :: string
  st_indexes :: "index_config list option"

record db_config =
  cfg_name :: string
  cfg_version :: int
  cfg_stores :: "store_config list"

record object_store =
  os_keyPath :: string
  os_indexes :: "index_config list"
  os_records :: "(idbkey \<times> jsobj) list"

type_synonym database = "string \<rightharpoonup> object_store"

fun insert_record :: "idbkey \<Rightarrow> jsobj \<Rightarrow> (idbkey \<times> jsobj) list \<Rightarrow> (idbkey \<times> jsobj) list" where
  "insert_record k v [] = [(k, v)]"
| "insert_record k v (r # rs) =
     (if k < fst r then (k, v) # r # rs else r # insert_record k v rs)"

definition delete_record :: "idbkey \<Rightarrow> (idbkey \<times> jsobj) list \<Rightarrow> (idbkey \<times> jsobj) list" where
  "delete_record k rs = filter (\<lambda>r. fst r \<noteq> k) rs"

definition has_key :: "idbkey \<Rightarrow> (idbkey \<times> jsobj) list \<Rightarrow> bool" where
  "has_key k rs = list_ex (\<lambda>r. fst r = k) rs"

text \<open>
  A unique index refuses a value whose index key is already the index key of a stored
  record. A value with no valid key at the index's key path is not indexed at all.
\<close>

definition index_conflict :: "index_config list \<Rightarrow> (idbkey \<times> jsobj) list \<Rightarrow> jsobj \<Rightarrow> bool" where
  "index_conflict idxs rs item =
     list_ex (\<lambda>idx. idx_unique idx \<and>
        (case extract_key (idx_keyPath idx) item of
           None \<Rightarrow> False
         | Some ik \<Rightarrow> list_ex (\<lambda>r. extract_key (idx_keyPath idx) (snd r) = Some ik) rs)) idxs"

text \<open>\<^verbatim>\<open>IDBObjectStore.add\<close>: no key generator, so the value must carry its key.\<close>

definition store_add :: "object_store \<Rightarrow> jsobj \<Rightarrow> error + (idbkey \<times> object_store)" where
  "store_add store item =
     (case extract_key (os_keyPath store) item of
        None \<Rightarrow> Inl DataError
      | Some k \<Rightarrow>
          if has_key k (os_records store) then Inl ConstraintError
          else if index_conflict (os_indexes store) (os_records store) item then Inl ConstraintError
          else Inr (k, store\<lparr>os_records := insert_record k item (os_records store)\<rparr>))"

text \<open>
  \<^verbatim>\<open>IDBObjectStore.put\<close>: the record stored under the key, if any, is removed with
  its index entries before the value is stored.
\<close>

definition store_put :: "object_store \<Rightarrow> jsobj \<Rightarrow> error + (idbkey \<times> object_store)" where
  "store_put store item =
     (case extract_key (os_keyPath store) item of
        None \<Rightarrow> Inl DataError
      | Some k \<Rightarrow>
          let others = delete_record k (os_records store) in
          if index_conflict (os_indexes store) others item then Inl ConstraintError
          else Inr (k, store\<lparr>os_records := insert_record k item others\<rparr>))"

definition store_get :: "object_store \<Rightarrow> jsval \<Rightarrow> error + jsobj option" where
  "store_get store key =
     (case to_key key of
        None \<Rightarrow> Inl DataError
      | Some k \<Rightarrow> Inr (map_of (os_records store) k))"

definition store_getAll :: "object_store \<Rightarrow> jsobj list" where
  "store_getAll store = map snd (os_records store)"

definition store_getAll_query :: "object_store \<Rightarrow> jsval \<Rightarrow> error + jsobj list" where
  "store_getAll_query store query =
     (case to_key query of
        None \<Rightarrow> Inl DataError
      | Some k \<Rightarrow> Inr (map snd (filter (\<lambda>r. fst r = k) (os_records store))))"

definition store_delete :: "object_store \<Rightarrow> jsval \<Rightarrow> error + object_store" where
  "store_delete store key =
     (case to_key key of
        None \<Rightarrow> Inl DataError
      | Some k \<Rightarrow> Inr (store\<lparr>os_records := delete_record k (os_records store)\<rparr>))"

definition store_clear :: "object_store \<Rightarrow> object_store" where
  "store_clear store = store\<lparr>os_records := []\<rparr>"

text \<open>
  \<^verbatim>\<open>IDBIndex.getAll\<close>: the values of the records that have a key at the index's key
  path, in ascending order of that key and, for equal index keys, of the primary key
  (the sort is stable and the records are already in primary key order).
\<close>

definition index_entries :: "index_config \<Rightarrow> (idbkey \<times> jsobj) list \<Rightarrow> (idbkey \<times> jsobj) list" where
  "index_entries idx rs =
     sort_key fst (List.map_filter
       (\<lambda>r. map_option (\<lambda>ik. (ik, snd r)) (extract_key (idx_keyPath idx) (snd r))) rs)"

definition index_getAll :: "index_config \<Rightarrow> object_store \<Rightarrow> jsobj list" where
  "index_getAll idx store = map snd (index_entries idx (os_records store))"

definition index_getAll_query :: "index_config \<Rightarrow> object_store \<Rightarrow> jsval \<Rightarrow> error + jsobj list" where
  "index_getAll_query idx store query =
     (case to_key query of
        None \<Rightarrow> Inl DataError
      | Some k \<Rightarrow> Inr (map snd (filter (\<lambda>e. fst e = k) (index_entries idx (os_records store)))))"

section \<open>\<^verbatim>\<open>DatabaseService\<close> (core/database.js)\<close>

text \<open>
  Every method opens a transaction on one store, issues one request and settles its
  promise with the request's outcome. A method is modelled on an opened database as a
  function from the database to the settled outcome (\<open>Inl\<close> the rejection,
  \<open>Inr\<close> the resolved value) and, for a read-write method, the database afterwards.
  A request that fails aborts its transaction, which leaves the database as it was.
\<close>

definition transaction :: "database \<Rightarrow> string \<Rightarrow> error + object_store" where
  "transaction db storeName =
     (case db storeName of None \<Rightarrow> Inl NotFoundError | Some store \<Rightarrow> Inr store)"

definition add :: "database \<Rightarrow> string \<Rightarrow> jsobj \<Rightarrow> (error + idbkey) \<times> database" where
  "add db storeName item =
     (case transaction db storeName of
        Inl e \<Rightarrow> (Inl e, db)
      | Inr store \<Rightarrow>
          (case store_add store item of
             Inl e \<Rightarrow> (Inl e, db)
           | Inr (k, store') \<Rightarrow> (Inr k, db(storeName \<mapsto> store'))))"

definition get :: "database \<Rightarrow> string \<Rightarrow> jsval \<Rightarrow> error + jsobj option" where
  "get db storeName key =
     (case transaction db storeName of
        Inl e \<Rightarrow> Inl e
      | Inr store \<Rightarrow> store_get store key)"

text \<open>
  \<^verbatim>\<open>if (indexName)\<close> and \<^verbatim>\<open>query ? ... : ...\<close> test truthiness: the empty
  string, \<open>0\<close>, \<open>NaN\<close>, \<open>null\<close> and \<open>undefined\<close> count as absent.
\<close>

fun truthy :: "jsval \<Rightarrow> bool" where
  "truthy JUndefined = False"
| "truthy JNull = False"
| "truthy (JBool b) = b"
| "truthy (JNum n) = (n \<noteq> 0)"
| "truthy JNaN = False"
| "truthy (JStr s) = (s \<noteq> [])"

definition getAll :: "database \<Rightarrow> string \<Rightarrow> string option \<Rightarrow> jsval \<Rightarrow> error + jsobj list" where
  "getAll db storeName indexName query =
     (case transaction db storeName of
        Inl e \<Rightarrow> Inl e
      | Inr store \<Rightarrow>
          (if indexName \<noteq> None \<and> indexName \<noteq> Some [] then
             (case find (\<lambda>idx. Some (idx_name idx) = indexName) (os_indexes store) of
                None \<Rightarrow> Inl NotFoundError
              | Some idx \<Rightarrow>
                  if truthy query then index_getAll_query idx store query
                  else Inr (index_getAll idx store))
           else if truthy query then store_getAll_query store query
           else Inr (store_getAll store)))"

definition update :: "database \<Rightarrow> string \<Rightarrow> jsobj \<Rightarrow> (error + idbkey) \<times> database" where
  "update db storeName item =
     (case transaction db storeName of
        Inl e \<Rightarrow> (Inl e, db)
      | Inr store \<Rightarrow>
          (case store_put store item of
             Inl e \<Rightarrow> (Inl e, db)
           | Inr (k, store') \<Rightarrow> (Inr k, db(storeName \<mapsto> store'))))"

definition delete :: "database \<Rightarrow> string \<Rightarrow> jsval \<Rightarrow> (error + unit) \<times> database" where
  "delete db storeName key =
     (case transaction db storeName of
        Inl e \<Rightarrow> (Inl e, db)
      | Inr store \<Rightarrow>
          (case store_delete store key of
             Inl e \<Rightarrow> (Inl e, db)
           | Inr store' \<Rightarrow> (Inr (), db(storeName \<mapsto> store'))))"

definition clear :: "database \<Rightarrow> string \<Rightarrow> (error + unit) \<times> database" where
  "clear db storeName =
     (case transaction db storeName of
        Inl e \<Rightarrow> (Inl e, db)
      | Inr store \<Rightarrow> (Inr (), db(storeName \<mapsto> store_clear store)))"

text \<open>
  \<^verbatim>\<open>Promise.all\<close>: the list of the resolved values, or a rejection with the
  reason of the promise that rejects first. The promises are not cancelled: every
  request that was issued takes effect whatever the others do.

  A call that is refused while it is made (\<open>NotFoundError\<close> from
  \<^verbatim>\<open>db.transaction\<close>, \<open>DataError\<close> from \<^verbatim>\<open>store.add\<close> or
  \<^verbatim>\<open>store.put\<close>: the exception is thrown inside the executor of the promise)
  returns a promise that is rejected from the start. A request that fails in its
  transaction (\<open>ConstraintError\<close>) rejects its promise later, from an error event.
  So a promise of the first kind rejects \<^verbatim>\<open>Promise.all\<close> before any of the
  second kind; within one kind the first in the order of the calls is taken to be the
  first to reject.
\<close>

fun thrown :: "error \<Rightarrow> bool" where
  "thrown ConstraintError = False"
| "thrown e = True"

fun in_call_order :: "(error + 'a) list \<Rightarrow> error + 'a list" where
  "in_call_order [] = Inr []"
| "in_call_order (Inl e # ps) = Inl e"
| "in_call_order (Inr x # ps) =
     (case in_call_order ps of Inl e \<Rightarrow> Inl e | Inr xs \<Rightarrow> Inr (x # xs))"

definition Promise_all :: "(error + 'a) list \<Rightarrow> error + 'a list" where
  "Promise_all ps =
     (case find (\<lambda>p. case p of Inl e \<Rightarrow> thrown e | Inr x \<Rightarrow> False) ps of
        Some (Inl e) \<Rightarrow> Inl e
      | _ \<Rightarrow> in_call_order ps)"

text \<open>
  The loops \<^verbatim>\<open>for (const x of xs) promises.push(this.update(store, x))\<close> and the
  same with \<^verbatim>\<open>this.add\<close>: one call per element, each in a transaction of its
  own, queued in the order of the calls.
\<close>

fun update_each :: "database \<Rightarrow> string \<Rightarrow> jsobj list \<Rightarrow> (error + idbkey) list \<times> database" where
  "update_each db storeName [] = ([], db)"
| "update_each db storeName (x # xs) =
     (let (p, db') = update db storeName x;
          (ps, db'') = update_each db' storeName xs
      in (p # ps, db''))"

fun add_each :: "database \<Rightarrow> string \<Rightarrow> jsobj list \<Rightarrow> (error + idbkey) list \<times> database" where
  "add_each db storeName [] = ([], db)"
| "add_each db storeName (x # xs) =
     (let (p, db') = add db storeName x;
          (ps, db'') = add_each db' storeName xs
      in (p # ps, db''))"

text \<open>The argument of \<^verbatim>\<open>saveAll\<close>; \<open>None\<close> is a member that is absent.\<close>

record data =
  doctors :: "jsobj list option"
  patients :: "jsobj list option"
  appointments :: "jsobj list option"

definition saveAll :: "database \<Rightarrow> data \<Rightarrow> (error + idbkey list) \<times> database" where
  "saveAll db d =
     (let (ps1, db1) = (case doctors d of None \<Rightarrow> ([], db)
                        | Some ds \<Rightarrow> update_each db ''doctors'' ds);
          (ps2, db2) = (case patients d of None \<Rightarrow> ([], db1)
                        | Some ps \<Rightarrow> update_each db1 ''patients'' ps);
          (ps3, db3) = (case appointments d of None \<Rightarrow> ([], db2)
                        | Some as \<Rightarrow> update_each db2 ''appointments'' as)
      in (Promise_all (ps1 @ ps2 @ ps3), db3))"

subsection \<open>JSON\<close>

text \<open>
  A JSON text is modelled by the document it denotes. \<^verbatim>\<open>JSON.stringify\<close> leaves
  out a property whose value is \<open>undefined\<close> and writes \<open>NaN\<close> as \<open>null\<close>.
  The texts given to \<^verbatim>\<open>import\<close> are those that denote a bundle: an object whose
  members \<open>doctors\<close>, \<open>patients\<close> and \<open>appointments\<close>, when present, are arrays
  of flat objects; \<open>NotJSON\<close> is a text that \<^verbatim>\<open>JSON.parse\<close> refuses.
  A number of a document is an integer that a double holds exactly, so that
  \<^verbatim>\<open>JSON.parse\<close> reads it without rounding.
\<close>

datatype json = JsNull | JsBool bool | JsNum int | JsStr string

type_synonym jsonobj = "string \<rightharpoonup> json"

fun stringify_val :: "jsval \<Rightarrow> json option" where
  "stringify_val JUndefined = None"
| "stringify_val JNull = Some JsNull"
| "stringify_val (JBool b) = Some (JsBool b)"
| "stringify_val (JNum n) = Some (JsNum n)"
| "stringify_val JNaN = Some JsNull"
| "stringify_val (JStr s) = Some (JsStr s)"

definition stringify_obj :: "jsobj \<Rightarrow> jsonobj" where
  "stringify_obj item = (\<lambda>p. case item p of None \<Rightarrow> None | Some v \<Rightarrow> stringify_val v)"

fun parse_val :: "json \<Rightarrow> jsval" where
  "parse_val JsNull = JNull"
| "parse_val (JsBool b) = JBool b"
| "parse_val (JsNum n) = JNum n"
| "parse_val (JsStr s) = JStr s"

definition parse_obj :: "jsonobj \<Rightarrow> jsobj" where
  "parse_obj j = (\<lambda>p. map_option parse_val (j p))"

record json_document =
  doc_doctors :: "jsonobj list option"
  doc_patients :: "jsonobj list option"
  doc_appointments :: "jsonobj list option"
  doc_exportedAt :: "json option"
  doc_version :: "json option"

datatype json_text = NotJSON | Text json_document

subsection \<open>\<^verbatim>\<open>Date.prototype.toISOString\<close>\<close>

text \<open>
  The time value of a date is a number of milliseconds since 1970-01-01T00:00:00Z; the
  clock of the browser gives one that is not negative. ECMAScript defines the year, month
  and day of a time value in the proleptic Gregorian calendar, with months counted from
  0, and \<^verbatim>\<open>toISOString\<close> as \<open>YYYY-MM-DDTHH:mm:ss.sssZ\<close>, the year written with
  four digits up to 9999 and with a plus sign and six digits after.
\<close>

definition msPerDay :: nat where
  "msPerDay = 86400000"

definition DaysInYear :: "nat \<Rightarrow> nat" where
  "DaysInYear y =
     (if y mod 4 \<noteq> 0 then 365
      else if y mod 100 \<noteq> 0 then 366
      else if y mod 400 \<noteq> 0 then 365
      else 366)"

text \<open>
  The year that holds a day and the number of the day within that year: counted from
  the first day of the year \<open>y\<close>, the day \<open>d\<close> is found by going through the
  years one at a time.
\<close>

function year_and_day :: "nat \<Rightarrow> nat \<Rightarrow> nat \<times> nat" where
  "year_and_day y d =
     (if d < DaysInYear y then (y, d) else year_and_day (y + 1) (d - DaysInYear y))"
  by pat_completeness auto
termination
  by (relation "measure (\<lambda>(y, d). d)") (auto simp: DaysInYear_def)

declare year_and_day.simps [simp del]

definition YearFromTime :: "nat \<Rightarrow> nat" where
  "YearFromTime t = fst (year_and_day 1970 (t div msPerDay))"

definition DayWithinYear :: "nat \<Rightarrow> nat" where
  "DayWithinYear t = snd (year_and_day 1970 (t div msPerDay))"

definition InLeapYear :: "nat \<Rightarrow> nat" where
  "InLeapYear t = (if DaysInYear (YearFromTime t) = 366 then 1 else 0)"

definition MonthFromTime :: "nat \<Rightarrow> nat" where
  "MonthFromTime t =
     (let d = DayWithinYear t; leap = InLeapYear t in
      if d < 31 then 0
      else if d < 59 + leap then 1
      else if d < 90 + leap then 2
      else if d < 120 + leap then 3
      else if d < 151 + leap then 4
      else if d < 181 + leap then 5
      else if d < 212 + leap then 6
      else if d < 243 + leap then 7
      else if d < 273 + leap then 8
      else if d < 304 + leap then 9
      else if d < 334 + leap then 10
      else 11)"

definition DateFromTime :: "nat \<Rightarrow> nat" where
  "DateFromTime t =
     (let d = DayWithinYear t; leap = InLeapYear t; m = MonthFromTime t in
      if m = 0 then d + 1
      else if m = 1 then d - 30
      else if m = 2 then d - 58 - leap
      else if m = 3 then d - 89 - leap
      else if m = 4 then d - 119 - leap
      else if m = 5 then d - 150 - leap
      else if m = 6 then d - 180 - leap
      else if m = 7 then d - 211 - leap
      else if m = 8 then d - 242 - leap
      else if m = 9 then d - 272 - leap
      else if m = 10 then d - 303 - leap
      else d - 333 - leap)"

definition HourFromTime :: "nat \<Rightarrow> nat" where
  "HourFromTime t = (t div 3600000) mod 24"

definition MinFromTime :: "nat \<Rightarrow> nat" where
  "MinFromTime t = (t div 60000) mod 60"

definition SecFromTime :: "nat \<Rightarrow> nat" where
  "SecFromTime t = (t div 1000) mod 60"

definition msFromTime :: "nat \<Rightarrow> nat" where
  "msFromTime t = t mod 1000"

definition digit :: "nat \<Rightarrow> char" where
  "digit n = ''0123456789'' ! (n mod 10)"

definition pad2 :: "nat \<Rightarrow> string" where
  "pad2 n = [digit (n div 10), digit n]"

definition pad3 :: "nat \<Rightarrow> string" where
  "pad3 n = [digit (n div 100), digit (n div 10), digit n]"

definition pad4 :: "nat \<Rightarrow> string" where
  "pad4 n = [digit (n div 1000), digit (n div 100), digit (n div 10), digit n]"

definition pad6 :: "nat \<Rightarrow> string" where
  "pad6 n = [digit (n div 100000), digit (n div 10000), digit (n div 1000), digit (n div 100),
             digit (n div 10), digit n]"

definition toISOString :: "nat \<Rightarrow> string" where
  "toISOString t =
     (if YearFromTime t \<le> 9999 then pad4 (YearFromTime t) else CHR ''+'' # pad6 (YearFromTime t)) @
     ''-'' @ pad2 (MonthFromTime t + 1) @ ''-'' @ pad2 (DateFromTime t) @
     ''T'' @ pad2 (HourFromTime t) @ '':'' @ pad2 (MinFromTime t) @ '':'' @ pad2 (SecFromTime t) @
     ''.'' @ pad3 (msFromTime t) @ ''Z''"

text \<open>
  \<^verbatim>\<open>export\<close>; \<open>now\<close> is the time value of \<^verbatim>\<open>new Date()\<close> at the moment of
  the call.
\<close>

definition export :: "db_config \<Rightarrow> database \<Rightarrow> nat \<Rightarrow> error + json_text" where
  "export config db now =
     (case getAll db ''doctors'' None JNull of
        Inl e \<Rightarrow> Inl e
      | Inr ds \<Rightarrow>
     (case getAll db ''patients'' None JNull of
        Inl e \<Rightarrow> Inl e
      | Inr ps \<Rightarrow>
     (case getAll db ''appointments'' None JNull of
        Inl e \<Rightarrow> Inl e
      | Inr as \<Rightarrow>
          Inr (Text \<lparr>doc_doctors = Some (map stringify_obj ds),
                     doc_patients = Some (map stringify_obj ps),
                     doc_appointments = Some (map stringify_obj as),
                     doc_exportedAt = Some (JsStr (toISOString now)),
                     doc_version = Some (JsNum (cfg_version config))\<rparr>))))"

text \<open>
  \<^verbatim>\<open>import\<close>: each \<^verbatim>\<open>await this.clear(...)\<close> that rejects ends the call there;
  the adds are all issued before \<^verbatim>\<open>Promise.all\<close> looks at any of them.
\<close>

definition import_adds :: "database \<Rightarrow> json_document \<Rightarrow> (error + idbkey list) \<times> database" where
  "import_adds db d =
     (let (ps1, db1) = (case doc_doctors d of None \<Rightarrow> ([], db)
                        | Some ds \<Rightarrow> add_each db ''doctors'' (map parse_obj ds));
          (ps2, db2) = (case doc_patients d of None \<Rightarrow> ([], db1)
                        | Some ps \<Rightarrow> add_each db1 ''patients'' (map parse_obj ps));
          (ps3, db3) = (case doc_appointments d of None \<Rightarrow> ([], db2)
                        | Some as \<Rightarrow> add_each db2 ''appointments'' (map parse_obj as))
      in (Promise_all (ps1 @ ps2 @ ps3), db3))"

fun import :: "database \<Rightarrow> json_text \<Rightarrow> (error + idbkey list) \<times> database" where
  "import db NotJSON = (Inl SyntaxError, db)"
| "import db (Text d) =
     (case clear db ''doctors'' of
        (Inl e, db1) \<Rightarrow> (Inl e, db1)
      | (Inr u1, db1) \<Rightarrow>
     (case clear db1 ''patients'' of
        (Inl e, db2) \<Rightarrow> (Inl e, db2)
      | (Inr u2, db2) \<Rightarrow>
     (case clear db2 ''appointments'' of
        (Inl e, db3) \<Rightarrow> (Inl e, db3)
      | (Inr u3, db3) \<Rightarrow> import_adds db3 d)))"

subsection \<open>Opening the database (\<^verbatim>\<open>init\<close>) with the configuration of app.js\<close>

definition createObjectStore :: "store_config \<Rightarrow> object_store" where
  "createObjectStore storeConfig =
     \<lparr>os_keyPath = st_keyPath storeConfig,
      os_indexes = (case st_indexes storeConfig of None \<Rightarrow> [] | Some idxs \<Rightarrow> idxs),
      os_records = []\<rparr>"

fun upgrade :: "store_config list \<Rightarrow> database \<Rightarrow> database" where
  "upgrade [] db = db"
| "upgrade (storeConfig # rest) db =
     upgrade rest (if db (st_name storeConfig) = None
                   then db(st_name storeConfig \<mapsto> createObjectStore storeConfig)
                   else db)"

text \<open>The database of a first run: \<^verbatim>\<open>onupgradeneeded\<close> on a database with no store.\<close>

definition init :: "db_config \<Rightarrow> database" where
  "init config = upgrade (cfg_stores config) Map.empty"

definition app_config :: db_config where
  "app_config =
     \<lparr>cfg_name = ''clinicpro_db'',
      cfg_version = 2,
      cfg_stores =
        [\<lparr>st_name = ''doctors'', st_keyPath = ''id'',
          st_indexes = Some
            [\<lparr>idx_name = ''name'', idx_keyPath = ''name'', idx_unique = False\<rparr>,
             \<lparr>idx_name = ''specialty'', idx_keyPath = ''specialty'', idx_unique = False\<rparr>,
             \<lparr>idx_name = ''isActive'', idx_keyPath = ''isActive'', idx_unique = False\<rparr>]\<rparr>,
         \<lparr>st_name = ''patients'', st_keyPath = ''id'',
          st_indexes = Some
            [\<lparr>idx_name = ''name'', idx_keyPath = ''name'', idx_unique = False\<rparr>,
             \<lparr>idx_name = ''phone'', idx_keyPath = ''phone'', idx_unique = True\<rparr>,
             \<lparr>idx_name = ''createdAt'', idx_keyPath = ''createdAt'', idx_unique = False\<rparr>]\<rparr>,
         \<lparr>st_name = ''appointments'', st_keyPath = ''id'',
          st_indexes = Some
            [\<lparr>idx_name = ''date'', idx_keyPath = ''date'', idx_unique = False\<rparr>,
             \<lparr>idx_name = ''status'', idx_keyPath = ''status'', idx_unique = False\<rparr>,
             \<lparr>idx_name = ''doctorId'', idx_keyPath = ''doctorId'', idx_unique = False\<rparr>,
             \<lparr>idx_name = ''patientId'', idx_keyPath = ''patientId'', idx_unique = False\<rparr>]\<rparr>]\<rparr>"

section \<open>Well-formed stores\<close>

text \<open>
  What IndexedDB maintains in every store: the records are in strictly ascending key
  order, every record's key is the one read from its value at the key path, and the
  index keys of a unique index are pairwise different.
\<close>

definition index_keys :: "index_config \<Rightarrow> jsobj list \<Rightarrow> idbkey list" where
  "index_keys idx items = List.map_filter (extract_key (idx_keyPath idx)) items"

definition unique_ok :: "index_config list \<Rightarrow> jsobj list \<Rightarrow> bool" where
  "unique_ok idxs items = list_all (\<lambda>idx. idx_unique idx \<longrightarrow> distinct (index_keys idx items)) idxs"

definition wf_store :: "object_store \<Rightarrow> bool" where
  "wf_store store =
     (sorted_wrt (<) (map fst (os_records store)) \<and>
      list_all (\<lambda>r. extract_key (os_keyPath store) (snd r) = Some (fst r)) (os_records store) \<and>
      unique_ok (os_indexes store) (map snd (os_records store)))"

text \<open>The records held by a collection, as \<^verbatim>\<open>getAll(storeName)\<close> lists them.\<close>

definition stored :: "database \<Rightarrow> string \<Rightarrow> jsobj set" where
  "stored db storeName =
     (case getAll db storeName None JNull of Inl e \<Rightarrow> {} | Inr items \<Rightarrow> set items)"

text \<open>
  A state of the application's database: the stores are those that \<^verbatim>\<open>init\<close>
  creates from the configuration of app.js, with any well-formed contents.
\<close>

definition app_db :: "database \<Rightarrow> bool" where
  "app_db db =
     ((\<forall>s. map_option store_clear (db s) = init app_config s) \<and>
      (\<forall>s store. db s = Some store \<longrightarrow> wf_store store))"

text \<open>
  Two values clash when a unique index gives both the same key: the store never holds
  both.
\<close>

definition clashes :: "index_config list \<Rightarrow> jsobj \<Rightarrow> jsobj \<Rightarrow> bool" where
  "clashes idxs item other =
     list_ex (\<lambda>idx. idx_unique idx \<and> extract_key (idx_keyPath idx) item \<noteq> None \<and>
        extract_key (idx_keyPath idx) other = extract_key (idx_keyPath idx) item) idxs"

text \<open>No two stored patients have the same phone number.\<close>

definition phones_unique :: "database \<Rightarrow> bool" where
  "phones_unique db =
     (case getAll db ''patients'' None JNull of
        Inl e \<Rightarrow> True
      | Inr items \<Rightarrow> distinct (List.map_filter (extract_key ''phone'') items))"

text \<open>
  The states the application's database can be in: that of a first run, and every state
  a method of \<^verbatim>\<open>DatabaseService\<close> leaves behind, whether its promise resolves or
  rejects.
\<close>

inductive reachable :: "database \<Rightarrow> bool" where
  first_run: "reachable (init app_config)"
| after_add: "reachable db \<Longrightarrow> reachable (snd (add db storeName item))"
| after_update: "reachable db \<Longrightarrow> reachable (snd (update db storeName item))"
| after_delete: "reachable db \<Longrightarrow> reachable (snd (delete db storeName key))"
| after_clear: "reachable db \<Longrightarrow> reachable (snd (clear db storeName))"
| after_saveAll: "reachable db \<Longrightarrow> reachable (snd (saveAll db d))"
| after_import: "reachable db \<Longrightarrow> reachable (snd (import db jsonData))"

subsection \<open>\<^verbatim>\<open>saveAll\<close> in the words of the specification\<close>

text \<open>
  Following the specification: one independent \<^verbatim>\<open>update\<close> call per record of the
  bundle's doctors, patients and appointments arrays, in that grouping. No call looks
  at the outcome of another.
\<close>

fun update_calls :: "database \<Rightarrow> (string \<times> jsobj) list \<Rightarrow> (error + idbkey) list \<times> database" where
  "update_calls db [] = ([], db)"
| "update_calls db (c # cs) =
     (let (p, db') = update db (fst c) (snd c);
          (ps, db'') = update_calls db' cs
      in (p # ps, db''))"

definition bundle_calls :: "data \<Rightarrow> (string \<times> jsobj) list" where
  "bundle_calls d =
     map (Pair ''doctors'') (case doctors d of None \<Rightarrow> [] | Some ds \<Rightarrow> ds) @
     map (Pair ''patients'') (case patients d of None \<Rightarrow> [] | Some ps \<Rightarrow> ps) @
     map (Pair ''appointments'') (case appointments d of None \<Rightarrow> [] | Some as \<Rightarrow> as)"

text \<open>The records a bundle lists for a collection.\<close>

definition listed :: "data \<Rightarrow> string \<Rightarrow> jsobj list" where
  "listed d storeName = map snd (filter (\<lambda>c. fst c = storeName) (bundle_calls d))"

subsection \<open>The format of a timestamp\<close>

text \<open>
  A date and time of ISO 8601 in UTC with milliseconds, as \<open>exportedAt\<close> is to be:
  a year of four digits, or of six digits after a plus sign, then
  \<open>-MM-DDTHH:mm:ss.sssZ\<close> with the month from 01 to 12, the day from 01 to 31, the
  hour up to 23 and the minute and the second up to 59.
\<close>

definition is_digit :: "char \<Rightarrow> bool" where
  "is_digit c = (c \<in> set ''0123456789'')"

definition number :: "string \<Rightarrow> nat" where
  "number s = foldl (\<lambda>n c. 10 * n + (of_char c - 48)) 0 s"

definition iso_date_time :: "string \<Rightarrow> bool" where
  "iso_date_time r =
     (case r of
        [s1, m1, m2, s2, d1, d2, s3, h1, h2, s4, n1, n2, s5, c1, c2, s6, f1, f2, f3, z] \<Rightarrow>
          s1 = CHR ''-'' \<and> s2 = CHR ''-'' \<and> s3 = CHR ''T'' \<and> s4 = CHR '':'' \<and>
          s5 = CHR '':'' \<and> s6 = CHR ''.'' \<and> z = CHR ''Z'' \<and>
          list_all is_digit [m1, m2, d1, d2, h1, h2, n1, n2, c1, c2, f1, f2, f3] \<and>
          1 \<le> number [m1, m2] \<and> number [m1, m2] \<le> 12 \<and>
          1 \<le> number [d1, d2] \<and> number [d1, d2] \<le> 31 \<and>
          number [h1, h2] \<le> 23 \<and> number [n1, n2] \<le> 59 \<and> number [c1, c2] \<le> 59
      | _ \<Rightarrow> False)"

definition iso8601_utc :: "string \<Rightarrow> bool" where
  "iso8601_utc s =
     (case s of
        [] \<Rightarrow> False
      | c # rest \<Rightarrow>
          if c = CHR ''+''
          then length (take 6 rest) = 6 \<and> list_all is_digit (take 6 rest) \<and> iso_date_time (drop 6 rest)
          else length (take 4 s) = 4 \<and> list_all is_digit (take 4 s) \<and> iso_date_time (drop 4 s))"

subsection \<open>Export followed by import\<close>

text \<open>
  The values that JSON can write: every scalar except \<open>undefined\<close> and \<open>NaN\<close>.
  A database is JSON-representable when every property of every record of the three
  collections holds such a value.
\<close>

fun json_value :: "jsval \<Rightarrow> bool" where
  "json_value JUndefined = False"
| "json_value JNaN = False"
| "json_value v = True"

definition json_record :: "jsobj \<Rightarrow> bool" where
  "json_record item = (\<forall>p v. item p = Some v \<longrightarrow> json_value v)"

definition json_safe :: "database \<Rightarrow> bool" where
  "json_safe db =
     (\<forall>storeName\<in>{''doctors'', ''patients'', ''appointments''}.
        \<forall>item\<in>stored db storeName. json_record item)"

text \<open>
  A record and an object of a JSON document are equal when they have the same
  properties and each property holds the same string, number, boolean or \<open>null\<close> in
  both.
\<close>

fun same_value :: "jsval \<Rightarrow> json \<Rightarrow> bool" where
  "same_value JNull JsNull = True"
| "same_value (JBool a) (JsBool b) = (a = b)"
| "same_value (JNum m) (JsNum n) = (m = n)"
| "same_value (JStr s) (JsStr t) = (s = t)"
| "same_value v j = False"

definition same_record :: "jsobj \<Rightarrow> jsonobj \<Rightarrow> bool" where
  "same_record item j = (\<forall>p. rel_option same_value (item p) (j p))"

text \<open>
  The text that \<^verbatim>\<open>export\<close> produces for a database, given to \<^verbatim>\<open>import\<close>
  on the database of a first run.
\<close>

definition export_then_import :: "database \<Rightarrow> nat \<Rightarrow> (error + idbkey list) \<times> database" where
  "export_then_import db now =
     (case export app_config db now of
        Inl e \<Rightarrow> (Inl e, init app_config)
      | Inr jsonData \<Rightarrow> import (init app_config) jsonData)"

section \<open>The stores of the application, and sample data\<close>

text \<open>
  The three stores that \<^verbatim>\<open>init\<close> creates from the configuration of app.js, as
  functions of the records they hold.
\<close>

definition amal :: jsobj where
  "amal = [''id'' \<mapsto> JStr ''p1'', ''name'' \<mapsto> JStr ''Amal'', ''phone'' \<mapsto> JStr ''0501'',
           ''age'' \<mapsto> JNum 34]"

definition badr :: jsobj where
  "badr = [''id'' \<mapsto> JStr ''p2'', ''name'' \<mapsto> JStr ''Badr'', ''phone'' \<mapsto> JStr ''0501'',
           ''age'' \<mapsto> JNum 51]"

definition dina :: jsobj where
  "dina = [''id'' \<mapsto> JStr ''p3'', ''name'' \<mapsto> JStr ''Dina'', ''phone'' \<mapsto> JStr ''0502'',
           ''age'' \<mapsto> JNum 27]"

definition patients_store :: "(idbkey \<times> jsobj) list \<Rightarrow> object_store" where
  "patients_store rs =
     \<lparr>os_keyPath = ''id'',
      os_indexes =
        [\<lparr>idx_name = ''name'', idx_keyPath = ''name'', idx_unique = False\<rparr>,
         \<lparr>idx_name = ''phone'', idx_keyPath = ''phone'', idx_unique = True\<rparr>,
         \<lparr>idx_name = ''createdAt'', idx_keyPath = ''createdAt'', idx_unique = False\<rparr>],
      os_records = rs\<rparr>"

definition doctors_store :: "(idbkey \<times> jsobj) list \<Rightarrow> object_store" where
  "doctors_store rs =
     \<lparr>os_keyPath = ''id'',
      os_indexes =
        [\<lparr>idx_name = ''name'', idx_keyPath = ''name'', idx_unique = False\<rparr>,
         \<lparr>idx_name = ''specialty'', idx_keyPath = ''specialty'', idx_unique = False\<rparr>,
         \<lparr>idx_name = ''isActive'', idx_keyPath = ''isActive'', idx_unique = False\<rparr>],
      os_records = rs\<rparr>"

definition appointments_store :: "(idbkey \<times> jsobj) list \<Rightarrow> object_store" where
  "appointments_store rs =
     \<lparr>os_keyPath = ''id'',
      os_indexes =
        [\<lparr>idx_name = ''date'', idx_keyPath = ''date'', idx_unique = False\<rparr>,
         \<lparr>idx_name = ''status'', idx_keyPath = ''status'', idx_unique = False\<rparr>,
         \<lparr>idx_name = ''doctorId'', idx_keyPath = ''doctorId'', idx_unique = False\<rparr>,
         \<lparr>idx_name = ''patientId'', idx_keyPath = ''patientId'', idx_unique = False\<rparr>],
      os_records = rs\<rparr>"

text \<open>The database of a first run after \<^verbatim>\<open>add('patients', amal)\<close>.\<close>

definition clinic_db :: database where
  "clinic_db = (init app_config)(''patients'' \<mapsto> patients_store [(KStr ''p1'', amal)])"

definition doctor_sami :: jsobj where
  "doctor_sami = [''id'' \<mapsto> JStr ''d1'', ''name'' \<mapsto> JStr ''Sami'', ''specialty'' \<mapsto> JStr ''ENT'',
                  ''isActive'' \<mapsto> JBool True, ''phone'' \<mapsto> JStr ''0501'']"

definition doctor_hala :: jsobj where
  "doctor_hala = [''id'' \<mapsto> JStr ''d2'', ''name'' \<mapsto> JStr ''Hala'', ''specialty'' \<mapsto> JStr ''Eye'',
                  ''isActive'' \<mapsto> JBool True, ''phone'' \<mapsto> JStr ''0501'']"

definition sample_data :: data where
  "sample_data = \<lparr>doctors = Some [doctor_sami], patients = Some [badr, dina], appointments = None\<rparr>"

text \<open>A patient whose age field was left empty in the form.\<close>

definition nabil :: jsobj where
  "nabil = [''id'' \<mapsto> JStr ''p4'', ''name'' \<mapsto> JStr ''Nabil'', ''phone'' \<mapsto> JStr ''0504'',
            ''age'' \<mapsto> JNaN]"

definition nabil_db :: database where
  "nabil_db = snd (add (init app_config) ''patients'' nabil)"

text \<open>The time value of 2024-05-01T08:30:00Z.\<close>

definition sample_time :: nat where
  "sample_time = 1714552200000"

text \<open>A bundle with one doctor and two patients, written by a newer version.\<close>

definition sample_document :: json_document where
  "sample_document =
     \<lparr>doc_doctors = Some [stringify_obj doctor_sami],
      doc_patients = Some [stringify_obj dina, stringify_obj amal],
      doc_appointments = Some [],
      doc_exportedAt = Some (JsStr ''2024-05-01T08:30:00.000Z''),
      doc_version = Some (JsNum 7)\<rparr>"

section \<open>The application shell (app.js): upcoming appointments\<close>

text \<open>
  An appointment as the shell holds it in \<^verbatim>\<open>state.appointments\<close>; every field is a
  string.
\<close>

record appointment =
  apptId :: string
  date :: string
  time :: string
  status :: string
  apptType :: string
  doctorId :: string
  patientId :: string
  createdAt :: string

text \<open>
  The comparison function given to \<^verbatim>\<open>sort\<close>. \<^verbatim>\<open>String.prototype.localeCompare\<close>
  depends on the locale of the browser and is a parameter: a negative number, zero or a
  positive number.
\<close>

definition compareAppointments :: "(string \<Rightarrow> string \<Rightarrow> int) \<Rightarrow> appointment \<Rightarrow> appointment \<Rightarrow> int" where
  "compareAppointments localeCompare a b =
     (if date a = date b then localeCompare (time a) (time b)
      else localeCompare (date a) (date b))"

text \<open>
  \<^verbatim>\<open>Array.prototype.sort\<close> with a comparison function is a stable sort: elements
  that compare equal keep their order. The arrangement it produces is computed here by
  inserting the elements from the right.
\<close>

fun insert_sorted :: "('a \<Rightarrow> 'a \<Rightarrow> int) \<Rightarrow> 'a \<Rightarrow> 'a list \<Rightarrow> 'a list" where
  "insert_sorted compareFn x [] = [x]"
| "insert_sorted compareFn x (y # ys) =
     (if compareFn x y \<le> 0 then x # y # ys else y # insert_sorted compareFn x ys)"

definition array_sort :: "('a \<Rightarrow> 'a \<Rightarrow> int) \<Rightarrow> 'a list \<Rightarrow> 'a list" where
  "array_sort compareFn xs = foldr (insert_sorted compareFn) xs []"

text \<open>
  The constant \<^verbatim>\<open>upcoming\<close> of \<^verbatim>\<open>updateUpcomingAppointments\<close>; \<open>today\<close> is
  \<^verbatim>\<open>new Date().toISOString().split('T')[0]\<close>, and \<^verbatim>\<open>>=\<close> on two strings
  compares them code unit by code unit.
\<close>

definition upcoming :: "(string \<Rightarrow> string \<Rightarrow> int) \<Rightarrow> string \<Rightarrow> appointment list \<Rightarrow> appointment list" where
  "upcoming localeCompare today appts =
     take 10 (array_sort (compareAppointments localeCompare)
                (filter (\<lambda>a. date a \<ge> today) appts))"

text \<open>
  The appointments whose rows \<^verbatim>\<open>updateUpcomingAppointments\<close> writes into the table,
  one row each and in this order; nothing is written when the page has no such table.
\<close>

definition updateUpcomingAppointments ::
  "(string \<Rightarrow> string \<Rightarrow> int) \<Rightarrow> bool \<Rightarrow> string \<Rightarrow> appointment list \<Rightarrow> appointment list option" where
  "updateUpcomingAppointments localeCompare table today appts =
     (if \<not> table then None else Some (upcoming localeCompare today appts))"

text \<open>
  What the ordering of the table needs from \<^verbatim>\<open>localeCompare\<close>: on the strings it
  is given (the dates and times of the appointments) it is a linear order.
\<close>

definition orders_linearly :: "(string \<Rightarrow> string \<Rightarrow> int) \<Rightarrow> string set \<Rightarrow> bool" where
  "orders_linearly localeCompare S =
     (\<forall>x\<in>S. \<forall>y\<in>S. \<forall>z\<in>S.
        (localeCompare x y \<le> 0 \<or> localeCompare y x \<le> 0) \<and>
        (localeCompare x y \<le> 0 \<and> localeCompare y x \<le> 0 \<longrightarrow> x = y) \<and>
        (localeCompare x y \<le> 0 \<and> localeCompare y z \<le> 0 \<longrightarrow> localeCompare x z \<le> 0))"

text \<open>A collation that compares code unit by code unit, and three appointments.\<close>

definition code_unit_compare :: "string \<Rightarrow> string \<Rightarrow> int" where
  "code_unit_compare x y = (if x < y then - 1 else if x = y then 0 else 1)"

definition appt :: "string \<Rightarrow> string \<Rightarrow> string \<Rightarrow> appointment" where
  "appt i d t =
     \<lparr>apptId = i, date = d, time = t, status = ''pending'', apptType = ''checkup'',
      doctorId = ''d1'', patientId = ''p1'', createdAt = ''2024-04-01T09:00:00.000Z''\<rparr>"

section \<open>Facts about \<^verbatim>\<open>Promise.all\<close>\<close>

lemma in_call_order_iff: "(in_call_order ps = Inr ks) = (ps = map Inr ks)"
proof (induction ps arbitrary: ks)
  case Nil
  then show ?case by auto
next
  case (Cons p ps)
  show ?case
  proof (cases p)
    case (Inl e)
    then show ?thesis by auto
  next
    case (Inr x)
    then show ?thesis
      using Cons.IH by (cases "in_call_order ps") (auto simp: Cons_eq_map_conv)
  qed
qed

lemma find_thrown_resolved:
  "find (\<lambda>p. case p of Inl e \<Rightarrow> thrown e | Inr x \<Rightarrow> False) (map Inr ks) = None"
  by (induction ks) simp_all

lemma Promise_all_iff: "(Promise_all ps = Inr ks) = (ps = map Inr ks)"
proof
  assume "ps = map Inr ks"
  then show "Promise_all ps = Inr ks"
    using in_call_order_iff [of ps ks] by (simp add: Promise_all_def find_thrown_resolved)
next
  assume a: "Promise_all ps = Inr ks"
  show "ps = map Inr ks"
  proof (cases "find (\<lambda>p. case p of Inl e \<Rightarrow> thrown e | Inr x \<Rightarrow> False) ps")
    case None
    with a show ?thesis by (simp add: Promise_all_def in_call_order_iff)
  next
    case (Some p)
    show ?thesis
    proof (cases p)
      case (Inl e)
      with Some a show ?thesis by (simp add: Promise_all_def)
    next
      case (Inr x)
      with Some a show ?thesis by (simp add: Promise_all_def in_call_order_iff)
    qed
  qed
qed

section \<open>Facts about the record list of a store\<close>

lemma less_idbkey_simps [simp]:
  "(KNum a < KNum b) = (a < b)"
  "(KNum a < KStr t) = True"
  "(KStr s < KNum b) = False"
  "(KStr s < KStr t) = (s < t)"
  by (auto simp: less_idbkey_def)

lemma to_key_key_val [simp]: "to_key (key_val k) = Some k"
  by (cases k) simp_all

lemma has_key_iff: "has_key k rs = (k \<in> fst ` set rs)"
  by (auto simp: has_key_def list_ex_iff)

lemma set_insert_record [simp]: "set (insert_record k v rs) = insert (k, v) (set rs)"
  by (induction rs) auto

lemma mset_insert_record [simp]: "mset (insert_record k v rs) = add_mset (k, v) (mset rs)"
  by (induction rs) auto

lemma sorted_insert_record:
  "sorted_wrt (<) (map fst rs) \<Longrightarrow> k \<notin> fst ` set rs
     \<Longrightarrow> sorted_wrt (<) (map fst (insert_record k v rs))"
proof (induction rs)
  case Nil
  then show ?case by simp
next
  case (Cons r rs)
  from Cons.prems have "k \<noteq> fst r" by auto
  with Cons show ?case by (auto simp: less_le not_less)
qed

lemma insert_record_append:
  "\<forall>r\<in>set rs. fst r < k \<Longrightarrow> insert_record k v rs = rs @ [(k, v)]"
  by (induction rs) (auto simp: not_less dest: less_imp_le)

lemma set_delete_record [simp]: "set (delete_record k rs) = {r \<in> set rs. fst r \<noteq> k}"
  by (auto simp: delete_record_def)

lemma sorted_delete_record:
  "sorted_wrt (<) (map fst rs) \<Longrightarrow> sorted_wrt (<) (map fst (delete_record k rs))"
  by (induction rs) (auto simp: delete_record_def)

lemma delete_record_absent: "k \<notin> fst ` set rs \<Longrightarrow> delete_record k rs = rs"
  unfolding delete_record_def by (induction rs) auto

lemma sorted_keys_distinct:
  "sorted_wrt (<) (map fst (rs :: (idbkey \<times> jsobj) list)) \<Longrightarrow> distinct (map fst rs)"
  using strict_sorted_iff [of "map fst rs"] by blast

lemma map_of_stored:
  "sorted_wrt (<) (map fst (rs :: (idbkey \<times> jsobj) list)) \<Longrightarrow> (k, v) \<in> set rs
     \<Longrightarrow> map_of rs k = Some v"
  by (simp add: sorted_keys_distinct)

lemma map_of_absent: "k \<notin> fst ` set rs \<Longrightarrow> map_of rs k = None"
  by (simp add: map_of_eq_None_iff)

subsection \<open>Unique indexes\<close>

lemma index_keys_Cons:
  "index_keys idx (item # items) =
     (case extract_key (idx_keyPath idx) item of
        None \<Rightarrow> index_keys idx items
      | Some ik \<Rightarrow> ik # index_keys idx items)"
  by (simp add: index_keys_def split: option.splits)

lemma set_index_keys:
  "set (index_keys idx items) = {ik. \<exists>v\<in>set items. extract_key (idx_keyPath idx) v = Some ik}"
  by (induction items) (auto simp: index_keys_Cons index_keys_def split: option.splits)

lemma mset_index_keys:
  "mset items = mset items' \<Longrightarrow> mset (index_keys idx items) = mset (index_keys idx items')"
proof -
  assume eq: "mset items = mset items'"
  have "mset (index_keys idx xs) =
          image_mset (the \<circ> extract_key (idx_keyPath idx))
            (filter_mset (\<lambda>x. extract_key (idx_keyPath idx) x \<noteq> None) (mset xs))" for xs
    by (simp add: index_keys_def List.map_filter_def)
  with eq show ?thesis by simp
qed

lemma unique_ok_mset:
  assumes "mset items = mset items'"
  shows "unique_ok idxs items = unique_ok idxs items'"
proof -
  have "distinct (index_keys idx items) = distinct (index_keys idx items')" for idx
    using mset_index_keys [OF assms, of idx] by (rule mset_eq_imp_distinct_iff)
  then show ?thesis by (simp add: unique_ok_def)
qed

lemma unique_ok_Cons:
  "unique_ok idxs (map snd rs)
     \<Longrightarrow> unique_ok idxs (item # map snd rs) = (\<not> index_conflict idxs rs item)"
  by (auto simp: unique_ok_def index_conflict_def list_all_iff list_ex_iff index_keys_Cons
        set_index_keys split: option.splits)

lemma distinct_index_keys_filter:
  "distinct (index_keys idx (map snd rs)) \<Longrightarrow> distinct (index_keys idx (map snd (filter P rs)))"
  by (induction rs) (auto simp: index_keys_Cons set_index_keys split: option.splits)

lemma unique_ok_filter:
  "unique_ok idxs (map snd rs) \<Longrightarrow> unique_ok idxs (map snd (filter P rs))"
  by (auto simp: unique_ok_def list_all_iff distinct_index_keys_filter)

lemma unique_ok_Nil [simp]: "unique_ok idxs []"
  by (simp add: unique_ok_def index_keys_def list_all_iff)

lemma unique_ok_insert:
  "unique_ok idxs (map snd rs) \<Longrightarrow> \<not> index_conflict idxs rs item
     \<Longrightarrow> unique_ok idxs (map snd (insert_record k item rs))"
proof -
  assume ok: "unique_ok idxs (map snd rs)" and nc: "\<not> index_conflict idxs rs item"
  have "mset (map snd (insert_record k item rs)) = mset (item # map snd rs)" by simp
  then have "unique_ok idxs (map snd (insert_record k item rs)) = unique_ok idxs (item # map snd rs)"
    by (rule unique_ok_mset)
  with ok nc show ?thesis by (simp add: unique_ok_Cons)
qed

subsection \<open>The store operations keep a store well formed\<close>

lemma store_add_Inr:
  "store_add store item = Inr (k, store') \<Longrightarrow>
     extract_key (os_keyPath store) item = Some k \<and> k \<notin> fst ` set (os_records store) \<and>
     \<not> index_conflict (os_indexes store) (os_records store) item \<and>
     store' = store\<lparr>os_records := insert_record k item (os_records store)\<rparr>"
  by (auto simp: store_add_def has_key_iff split: option.splits if_splits)

lemma store_put_Inr:
  "store_put store item = Inr (k, store') \<Longrightarrow>
     extract_key (os_keyPath store) item = Some k \<and>
     \<not> index_conflict (os_indexes store) (delete_record k (os_records store)) item \<and>
     store' = store\<lparr>os_records := insert_record k item (delete_record k (os_records store))\<rparr>"
  by (auto simp: store_put_def Let_def split: option.splits if_splits)

lemma wf_store_insert:
  assumes "wf_store store" "extract_key (os_keyPath store) item = Some k"
    "k \<notin> fst ` set (os_records store)"
    "\<not> index_conflict (os_indexes store) (os_records store) item"
  shows "wf_store (store\<lparr>os_records := insert_record k item (os_records store)\<rparr>)"
  using assms by (simp add: wf_store_def sorted_insert_record unique_ok_insert list_all_iff)

lemma wf_store_delete:
  assumes "wf_store store"
  shows "wf_store (store\<lparr>os_records := delete_record k (os_records store)\<rparr>)"
  using assms unique_ok_filter [of "os_indexes store" "os_records store" "\<lambda>r. fst r \<noteq> k"]
  by (simp add: wf_store_def sorted_delete_record list_all_iff) (simp add: delete_record_def)

lemma wf_store_add:
  "wf_store store \<Longrightarrow> store_add store item = Inr (k, store') \<Longrightarrow> wf_store store'"
  by (auto dest!: store_add_Inr intro: wf_store_insert)

lemma wf_store_put:
  assumes "wf_store store" "store_put store item = Inr (k, store')"
  shows "wf_store store'"
proof -
  let ?d = "store\<lparr>os_records := delete_record k (os_records store)\<rparr>"
  from assms(2) have p: "extract_key (os_keyPath store) item = Some k"
    "\<not> index_conflict (os_indexes store) (delete_record k (os_records store)) item"
    "store' = store\<lparr>os_records := insert_record k item (delete_record k (os_records store))\<rparr>"
    by (auto dest: store_put_Inr)
  have "wf_store ?d" using assms(1) by (rule wf_store_delete)
  moreover have "k \<notin> fst ` set (os_records ?d)" by auto
  ultimately have "wf_store (?d\<lparr>os_records := insert_record k item (os_records ?d)\<rparr>)"
    using p(1,2) by (intro wf_store_insert) simp_all
  with p(3) show ?thesis by simp
qed

lemma wf_store_clear [simp]: "wf_store (store_clear store)"
  by (simp add: wf_store_def store_clear_def)

section \<open>The methods on one store\<close>

lemma getAll_plain:
  "db storeName = Some store \<Longrightarrow> getAll db storeName None JNull = Inr (store_getAll store)"
  by (simp add: getAll_def transaction_def)

lemma stored_eq: "db storeName = Some store \<Longrightarrow> stored db storeName = snd ` set (os_records store)"
  by (simp add: stored_def getAll_plain store_getAll_def)

lemma wf_store_record:
  "wf_store store \<Longrightarrow> (k, item) \<in> set (os_records store)
     \<Longrightarrow> extract_key (os_keyPath store) item = Some k"
  by (auto simp: wf_store_def list_all_iff)

lemma wf_store_key_stored:
  assumes "wf_store store"
  shows "(k \<in> fst ` set (os_records store)) =
         (\<exists>item\<in>snd ` set (os_records store). extract_key (os_keyPath store) item = Some k)"
proof
  assume "k \<in> fst ` set (os_records store)"
  then obtain item where "(k, item) \<in> set (os_records store)" by auto
  with assms show "\<exists>item\<in>snd ` set (os_records store). extract_key (os_keyPath store) item = Some k"
    by (force dest: wf_store_record)
next
  assume "\<exists>item\<in>snd ` set (os_records store). extract_key (os_keyPath store) item = Some k"
  then obtain k' item where r: "(k', item) \<in> set (os_records store)"
    and "extract_key (os_keyPath store) item = Some k" by auto
  with assms have "k' = k" by (auto dest: wf_store_record)
  with r show "k \<in> fst ` set (os_records store)" by force
qed

lemma get_key:
  "db storeName = Some store \<Longrightarrow> get db storeName (key_val k) = Inr (map_of (os_records store) k)"
  by (simp add: get_def transaction_def store_get_def)

lemma clinic_db_patients:
  "clinic_db ''patients'' = Some (patients_store [(KStr ''p1'', amal)])"
  by (simp add: clinic_db_def)

lemma wf_clinic_patients: "wf_store (patients_store [(KStr ''p1'', amal)])"
  by (simp add: wf_store_def patients_store_def unique_ok_def index_keys_def extract_key_def
        amal_def)

lemma to_key_SomeD: "to_key v = Some k \<Longrightarrow> v = key_val k"
  by (cases v) auto

lemma get_invalid_key:
  "db storeName = Some store \<Longrightarrow> to_key key = None \<Longrightarrow> get db storeName key = Inl DataError"
  by (simp add: get_def transaction_def store_get_def)

lemma delete_invalid_key:
  "db storeName = Some store \<Longrightarrow> to_key key = None
     \<Longrightarrow> delete db storeName key = (Inl DataError, db)"
  by (simp add: delete_def transaction_def store_delete_def)

lemma get_valid_key:
  assumes "db storeName = Some store" and "wf_store store"
  shows "(\<forall>item\<in>stored db storeName.
            extract_key (os_keyPath store) item = Some k
              \<longrightarrow> get db storeName (key_val k) = Inr (Some item)) \<and>
         ((\<forall>item\<in>stored db storeName. extract_key (os_keyPath store) item \<noteq> Some k)
              \<longrightarrow> get db storeName (key_val k) = Inr None)"
proof (intro conjI ballI impI)
  fix item
  assume "item \<in> stored db storeName" and k: "extract_key (os_keyPath store) item = Some k"
  then obtain k' where r: "(k', item) \<in> set (os_records store)"
    using assms(1) by (auto simp: stored_eq)
  with assms(2) k have "k' = k" by (auto dest: wf_store_record)
  with r assms(2) have "map_of (os_records store) k = Some item"
    by (simp add: wf_store_def map_of_stored)
  with assms(1) show "get db storeName (key_val k) = Inr (Some item)"
    by (simp add: get_key)
next
  assume "\<forall>item\<in>stored db storeName. extract_key (os_keyPath store) item \<noteq> Some k"
  with assms have "k \<notin> fst ` set (os_records store)"
    by (simp add: wf_store_key_stored stored_eq)
  with assms(1) show "get db storeName (key_val k) = Inr None"
    by (simp add: get_key map_of_absent)
qed

lemma delete_valid_key:
  assumes "db storeName = Some store" and "wf_store store"
  shows "fst (delete db storeName (key_val k)) = Inr () \<and>
         stored (snd (delete db storeName (key_val k))) storeName =
           {item \<in> stored db storeName. extract_key (os_keyPath store) item \<noteq> Some k} \<and>
         get (snd (delete db storeName (key_val k))) storeName (key_val k) = Inr None \<and>
         ((\<forall>item\<in>stored db storeName. extract_key (os_keyPath store) item \<noteq> Some k)
              \<longrightarrow> snd (delete db storeName (key_val k)) = db)"
proof -
  let ?store' = "store\<lparr>os_records := delete_record k (os_records store)\<rparr>"
  have d: "delete db storeName (key_val k) = (Inr (), db(storeName \<mapsto> ?store'))"
    using assms(1) by (simp add: delete_def transaction_def store_delete_def)
  have s: "stored (db(storeName \<mapsto> ?store')) storeName =
             {item \<in> stored db storeName. extract_key (os_keyPath store) item \<noteq> Some k}"
  proof -
    have "snd ` {r \<in> set (os_records store). fst r \<noteq> k} =
            {item \<in> snd ` set (os_records store). extract_key (os_keyPath store) item \<noteq> Some k}"
      using assms(2) by (force dest: wf_store_record)
    then show ?thesis
      using assms(1) by (simp add: stored_eq [of "db(storeName \<mapsto> ?store')" storeName ?store'] stored_eq)
  qed
  have g: "get (db(storeName \<mapsto> ?store')) storeName (key_val k) = Inr None"
    by (auto simp: get_key [of _ _ ?store'] map_of_eq_None_iff)
  have n: "db(storeName \<mapsto> ?store') = db"
    if "\<forall>item\<in>stored db storeName. extract_key (os_keyPath store) item \<noteq> Some k"
  proof -
    from that assms have "k \<notin> fst ` set (os_records store)"
      by (simp add: wf_store_key_stored stored_eq)
    then have "?store' = store" by (simp add: delete_record_absent)
    with assms(1) show ?thesis by (simp add: fun_upd_idem)
  qed
  from d s g n show ?thesis by simp
qed

text \<open>
  C6, as the code has it. In a collection of the database, \<^verbatim>\<open>get\<close> with a valid
  key (a string, or a number other than \<open>NaN\<close>) resolves with the stored record whose
  id is that key when there is one, and with \<open>undefined\<close> (\<open>None\<close>), not a
  rejection, when no stored record has that id. With a key that is not valid
  (\<open>undefined\<close>, \<open>null\<close>, \<open>NaN\<close>, a boolean) it is rejected with \<open>DataError\<close>.
\<close>

theorem get_stored_record_or_undefined:
  assumes "db storeName = Some store" and "wf_store store"
  shows "(\<forall>k. to_key key = Some k \<longrightarrow>
            (\<forall>item\<in>stored db storeName.
               extract_key (os_keyPath store) item = Some k
                 \<longrightarrow> get db storeName key = Inr (Some item)) \<and>
            ((\<forall>item\<in>stored db storeName. extract_key (os_keyPath store) item \<noteq> Some k)
                 \<longrightarrow> get db storeName key = Inr None)) \<and>
         (to_key key = None \<longrightarrow> get db storeName key = Inl DataError)"
proof (rule conjI)
  show "to_key key = None \<longrightarrow> get db storeName key = Inl DataError"
    using assms(1) by (simp add: get_invalid_key)
next
  show "\<forall>k. to_key key = Some k \<longrightarrow>
            (\<forall>item\<in>stored db storeName.
               extract_key (os_keyPath store) item = Some k
                 \<longrightarrow> get db storeName key = Inr (Some item)) \<and>
            ((\<forall>item\<in>stored db storeName. extract_key (os_keyPath store) item \<noteq> Some k)
                 \<longrightarrow> get db storeName key = Inr None)"
  proof (intro allI impI)
  fix k
  assume "to_key key = Some k"
  then have "key = key_val k" by (rule to_key_SomeD)
  with get_valid_key [of db storeName store k, OF assms]
  show "(\<forall>item\<in>stored db storeName.
           extract_key (os_keyPath store) item = Some k
             \<longrightarrow> get db storeName key = Inr (Some item)) \<and>
        ((\<forall>item\<in>stored db storeName. extract_key (os_keyPath store) item \<noteq> Some k)
             \<longrightarrow> get db storeName key = Inr None)"
    by simp
  qed
qed

theorem get_stored_record_or_undefined_witness:
  "get clinic_db ''patients'' (JStr ''p1'') = Inr (Some amal) \<and>
   get clinic_db ''patients'' (JStr ''p7'') = Inr None \<and>
   get clinic_db ''patients'' (JBool True) = Inl DataError \<and>
   get clinic_db ''patients'' JNaN = Inl DataError"
  using get_stored_record_or_undefined [of clinic_db "''patients''" "patients_store [(KStr ''p1'', amal)]" "JStr ''p1''"]
    get_stored_record_or_undefined [of clinic_db "''patients''" "patients_store [(KStr ''p1'', amal)]" "JStr ''p7''"]
    get_stored_record_or_undefined [of clinic_db "''patients''" "patients_store [(KStr ''p1'', amal)]" "JBool True"]
    get_stored_record_or_undefined [of clinic_db "''patients''" "patients_store [(KStr ''p1'', amal)]" JNaN]
    clinic_db_patients wf_clinic_patients
  by (simp add: stored_def getAll_def transaction_def store_getAll_def patients_store_def
        extract_key_def amal_def)

text \<open>
  The claim C6 as the specification states it fails: \<^verbatim>\<open>get\<close> with the key
  \<open>null\<close>, the id of no stored record, is rejected and does not resolve with an empty
  result.
\<close>

theorem get_every_key_counterexample:
  "get clinic_db ''patients'' JNull = Inl DataError"
  by (simp add: get_def transaction_def clinic_db_def store_get_def)

text \<open>
  C7, as the code has it. In a collection of the database, \<^verbatim>\<open>delete\<close> with a
  valid key (a string, or a number other than \<open>NaN\<close>) resolves; afterwards the
  collection holds the records it held except the one with that id, and \<^verbatim>\<open>get\<close>
  with the key finds nothing; when no stored record has that id the database is left as
  it was. With a key that is not valid (\<open>undefined\<close>, \<open>null\<close>, \<open>NaN\<close>, a
  boolean) it is rejected with \<open>DataError\<close> and the database is left as it was.
\<close>

theorem delete_removes_record:
  assumes "db storeName = Some store" and "wf_store store"
  shows "(\<forall>k. to_key key = Some k \<longrightarrow>
            fst (delete db storeName key) = Inr () \<and>
            stored (snd (delete db storeName key)) storeName =
              {item \<in> stored db storeName. extract_key (os_keyPath store) item \<noteq> Some k} \<and>
            get (snd (delete db storeName key)) storeName key = Inr None \<and>
            ((\<forall>item\<in>stored db storeName. extract_key (os_keyPath store) item \<noteq> Some k)
                 \<longrightarrow> snd (delete db storeName key) = db)) \<and>
         (to_key key = None \<longrightarrow> delete db storeName key = (Inl DataError, db))"
proof (rule conjI)
  show "to_key key = None \<longrightarrow> delete db storeName key = (Inl DataError, db)"
    using assms(1) by (simp add: delete_invalid_key)
next
  show "\<forall>k. to_key key = Some k \<longrightarrow>
            fst (delete db storeName key) = Inr () \<and>
            stored (snd (delete db storeName key)) storeName =
              {item \<in> stored db storeName. extract_key (os_keyPath store) item \<noteq> Some k} \<and>
            get (snd (delete db storeName key)) storeName key = Inr None \<and>
            ((\<forall>item\<in>stored db storeName. extract_key (os_keyPath store) item \<noteq> Some k)
                 \<longrightarrow> snd (delete db storeName key) = db)"
  proof (intro allI impI)
  fix k
  assume "to_key key = Some k"
  then have "key = key_val k" by (rule to_key_SomeD)
  with delete_valid_key [of db storeName store k, OF assms]
  show "fst (delete db storeName key) = Inr () \<and>
        stored (snd (delete db storeName key)) storeName =
          {item \<in> stored db storeName. extract_key (os_keyPath store) item \<noteq> Some k} \<and>
        get (snd (delete db storeName key)) storeName key = Inr None \<and>
        ((\<forall>item\<in>stored db storeName. extract_key (os_keyPath store) item \<noteq> Some k)
             \<longrightarrow> snd (delete db storeName key) = db)"
    by simp
  qed
qed

theorem delete_removes_record_witness:
  "fst (delete clinic_db ''patients'' (JStr ''p1'')) = Inr () \<and>
   stored (snd (delete clinic_db ''patients'' (JStr ''p1''))) ''patients'' = {} \<and>
   get (snd (delete clinic_db ''patients'' (JStr ''p1''))) ''patients'' (JStr ''p1'') = Inr None \<and>
   snd (delete clinic_db ''patients'' (JStr ''p7'')) = clinic_db \<and>
   delete clinic_db ''patients'' JNull = (Inl DataError, clinic_db)"
  using delete_removes_record [of clinic_db "''patients''" "patients_store [(KStr ''p1'', amal)]" "JStr ''p1''"]
    delete_removes_record [of clinic_db "''patients''" "patients_store [(KStr ''p1'', amal)]" "JStr ''p7''"]
    delete_removes_record [of clinic_db "''patients''" "patients_store [(KStr ''p1'', amal)]" JNull]
    clinic_db_patients wf_clinic_patients
  by (simp add: stored_def getAll_def transaction_def store_getAll_def patients_store_def
        extract_key_def amal_def delete_def store_delete_def delete_record_def)

text \<open>
  The claim C7 as the specification states it fails: \<^verbatim>\<open>delete\<close> with the key
  \<open>undefined\<close> is rejected and does not succeed as a no-op.
\<close>

theorem delete_every_key_counterexample:
  "delete clinic_db ''patients'' JUndefined = (Inl DataError, clinic_db)"
  by (simp add: delete_def transaction_def clinic_db_def store_delete_def)

section \<open>\<^verbatim>\<open>add\<close> and \<^verbatim>\<open>update\<close>\<close>

lemma index_conflict_iff:
  "index_conflict idxs rs item = (\<exists>other\<in>snd ` set rs. clashes idxs item other)"
  by (auto simp: index_conflict_def clashes_def list_ex_iff split: option.splits) force+

lemma add_duplicate:
  "db storeName = Some store \<Longrightarrow> extract_key (os_keyPath store) item = Some k
     \<Longrightarrow> k \<in> fst ` set (os_records store)
     \<Longrightarrow> add db storeName item = (Inl ConstraintError, db)"
  by (simp add: add_def transaction_def store_add_def has_key_iff)

lemma add_ok:
  "db storeName = Some store \<Longrightarrow> extract_key (os_keyPath store) item = Some k
     \<Longrightarrow> k \<notin> fst ` set (os_records store)
     \<Longrightarrow> \<not> index_conflict (os_indexes store) (os_records store) item
     \<Longrightarrow> add db storeName item =
           (Inr k, db(storeName \<mapsto> store\<lparr>os_records := insert_record k item (os_records store)\<rparr>))"
  by (simp add: add_def transaction_def store_add_def has_key_iff)

lemma update_ok:
  "db storeName = Some store \<Longrightarrow> extract_key (os_keyPath store) item = Some k
     \<Longrightarrow> \<not> index_conflict (os_indexes store) (delete_record k (os_records store)) item
     \<Longrightarrow> update db storeName item =
           (Inr k, db(storeName \<mapsto>
              store\<lparr>os_records := insert_record k item (delete_record k (os_records store))\<rparr>))"
  by (simp add: update_def transaction_def store_put_def)

lemma update_conflict:
  "db storeName = Some store \<Longrightarrow> extract_key (os_keyPath store) item = Some k
     \<Longrightarrow> index_conflict (os_indexes store) (delete_record k (os_records store)) item
     \<Longrightarrow> update db storeName item = (Inl ConstraintError, db)"
  by (simp add: update_def transaction_def store_put_def)

lemma update_no_key:
  "db storeName = Some store \<Longrightarrow> extract_key (os_keyPath store) item = None
     \<Longrightarrow> update db storeName item = (Inl DataError, db)"
  by (simp add: update_def transaction_def store_put_def)

lemma others_conflict_iff:
  assumes "db storeName = Some store" and "wf_store store"
  shows "index_conflict (os_indexes store) (delete_record k (os_records store)) item =
         (\<exists>other\<in>stored db storeName.
            extract_key (os_keyPath store) other \<noteq> Some k \<and> clashes (os_indexes store) item other)"
proof -
  have "snd ` {r \<in> set (os_records store). fst r \<noteq> k} =
          {other \<in> snd ` set (os_records store). extract_key (os_keyPath store) other \<noteq> Some k}"
    using assms(2) by (force dest: wf_store_record)
  then show ?thesis
    using assms(1) by (auto simp: index_conflict_iff stored_eq)
qed

lemma stored_after_put:
  assumes "db storeName = Some store" and "wf_store store"
  shows "stored (db(storeName \<mapsto>
            store\<lparr>os_records := insert_record k item (delete_record k (os_records store))\<rparr>)) storeName =
         insert item {old \<in> stored db storeName. extract_key (os_keyPath store) old \<noteq> Some k}"
proof -
  let ?store' = "store\<lparr>os_records := insert_record k item (delete_record k (os_records store))\<rparr>"
  have "snd ` {r \<in> set (os_records store). fst r \<noteq> k} =
          {old \<in> snd ` set (os_records store). extract_key (os_keyPath store) old \<noteq> Some k}"
    using assms(2) by (force dest: wf_store_record)
  then show ?thesis
    using assms(1) by (simp add: stored_eq [of _ storeName ?store'] stored_eq)
qed

lemma get_after_put:
  assumes "wf_store store"
  shows "get (db(storeName \<mapsto>
            store\<lparr>os_records := insert_record k item (delete_record k (os_records store))\<rparr>))
           storeName (key_val k) = Inr (Some item)"
proof -
  let ?rs = "insert_record k item (delete_record k (os_records store))"
  have "sorted_wrt (<) (map fst (delete_record k (os_records store)))"
    using assms by (simp add: wf_store_def sorted_delete_record)
  moreover have "k \<notin> fst ` set (delete_record k (os_records store))" by auto
  ultimately have "sorted_wrt (<) (map fst ?rs)" by (rule sorted_insert_record)
  then have "map_of ?rs k = Some item" by (rule map_of_stored) simp
  then show ?thesis by (simp add: get_key [of _ _ "store\<lparr>os_records := ?rs\<rparr>"])
qed

text \<open>
  C1, as the code has it. \<^verbatim>\<open>add\<close> is rejected when the id of the record is
  already the key of a stored record. \<^verbatim>\<open>update\<close> resolves, inserting the record
  when its id is absent and replacing the stored record otherwise, for a record that
  has a valid id and does not clash on a unique index with a stored record of another
  id; it is rejected, leaving the database as it was, for a record that clashes or has
  no valid id.
\<close>

theorem add_rejects_duplicate_update_upserts:
  assumes "db storeName = Some store" and "wf_store store"
  shows "(\<forall>k. extract_key (os_keyPath store) item = Some k \<and>
              (\<exists>old\<in>stored db storeName. extract_key (os_keyPath store) old = Some k)
            \<longrightarrow> add db storeName item = (Inl ConstraintError, db)) \<and>
         (\<forall>k. extract_key (os_keyPath store) item = Some k \<and>
              (\<forall>other\<in>stored db storeName. extract_key (os_keyPath store) other \<noteq> Some k
                 \<longrightarrow> \<not> clashes (os_indexes store) item other)
            \<longrightarrow> fst (update db storeName item) = Inr k \<and>
                stored (snd (update db storeName item)) storeName =
                  insert item {old \<in> stored db storeName. extract_key (os_keyPath store) old \<noteq> Some k} \<and>
                get (snd (update db storeName item)) storeName (key_val k) = Inr (Some item)) \<and>
         (\<forall>k. extract_key (os_keyPath store) item = Some k \<and>
              (\<exists>other\<in>stored db storeName. extract_key (os_keyPath store) other \<noteq> Some k
                 \<and> clashes (os_indexes store) item other)
            \<longrightarrow> update db storeName item = (Inl ConstraintError, db)) \<and>
         (extract_key (os_keyPath store) item = None
            \<longrightarrow> update db storeName item = (Inl DataError, db))"
proof (intro conjI allI impI)
  fix k
  assume "extract_key (os_keyPath store) item = Some k \<and>
          (\<exists>old\<in>stored db storeName. extract_key (os_keyPath store) old = Some k)"
  then have k: "extract_key (os_keyPath store) item = Some k"
    and "k \<in> fst ` set (os_records store)"
    using assms by (simp_all add: wf_store_key_stored stored_eq)
  with assms(1) show "add db storeName item = (Inl ConstraintError, db)"
    by (simp add: add_duplicate)
next
  fix k
  assume a: "extract_key (os_keyPath store) item = Some k \<and>
          (\<forall>other\<in>stored db storeName. extract_key (os_keyPath store) other \<noteq> Some k
             \<longrightarrow> \<not> clashes (os_indexes store) item other)"
  then have "\<not> index_conflict (os_indexes store) (delete_record k (os_records store)) item"
    using others_conflict_iff [of db storeName store k item, OF assms] by blast
  with a assms(1) have u: "update db storeName item =
      (Inr k, db(storeName \<mapsto>
         store\<lparr>os_records := insert_record k item (delete_record k (os_records store))\<rparr>))"
    by (simp add: update_ok)
  show "fst (update db storeName item) = Inr k"
    by (simp add: u)
  show "stored (snd (update db storeName item)) storeName =
          insert item {old \<in> stored db storeName. extract_key (os_keyPath store) old \<noteq> Some k}"
    using stored_after_put [of db storeName store k item, OF assms] by (simp add: u)
  show "get (snd (update db storeName item)) storeName (key_val k) = Inr (Some item)"
    using get_after_put [OF assms(2), of db storeName k item] by (simp add: u)
next
  fix k
  assume a: "extract_key (os_keyPath store) item = Some k \<and>
          (\<exists>other\<in>stored db storeName. extract_key (os_keyPath store) other \<noteq> Some k
             \<and> clashes (os_indexes store) item other)"
  then have "index_conflict (os_indexes store) (delete_record k (os_records store)) item"
    using others_conflict_iff [of db storeName store k item, OF assms] by blast
  with a assms(1) show "update db storeName item = (Inl ConstraintError, db)"
    by (simp add: update_conflict)
next
  assume "extract_key (os_keyPath store) item = None"
  with assms(1) show "update db storeName item = (Inl DataError, db)"
    by (simp add: update_no_key)
qed

theorem add_rejects_duplicate_update_upserts_witness:
  "add clinic_db ''patients'' amal = (Inl ConstraintError, clinic_db) \<and>
   fst (update clinic_db ''patients'' dina) = Inr (KStr ''p3'') \<and>
   stored (snd (update clinic_db ''patients'' dina)) ''patients'' = {amal, dina} \<and>
   get (snd (update clinic_db ''patients'' dina)) ''patients'' (JStr ''p3'') = Inr (Some dina) \<and>
   stored (snd (update clinic_db ''patients'' (amal(''age'' \<mapsto> JNum 35)))) ''patients'' =
     {amal(''age'' \<mapsto> JNum 35)} \<and>
   update clinic_db ''patients'' (dina(''phone'' \<mapsto> JStr ''0501'')) =
     (Inl ConstraintError, clinic_db) \<and>
   update clinic_db ''patients'' [''name'' \<mapsto> JStr ''Faris''] = (Inl DataError, clinic_db)"
  using add_rejects_duplicate_update_upserts
      [of clinic_db "''patients''" "patients_store [(KStr ''p1'', amal)]" amal]
    add_rejects_duplicate_update_upserts
      [of clinic_db "''patients''" "patients_store [(KStr ''p1'', amal)]" dina]
    add_rejects_duplicate_update_upserts
      [of clinic_db "''patients''" "patients_store [(KStr ''p1'', amal)]" "amal(''age'' \<mapsto> JNum 35)"]
    add_rejects_duplicate_update_upserts
      [of clinic_db "''patients''" "patients_store [(KStr ''p1'', amal)]"
          "dina(''phone'' \<mapsto> JStr ''0501'')"]
    add_rejects_duplicate_update_upserts
      [of clinic_db "''patients''" "patients_store [(KStr ''p1'', amal)]"
          "[''name'' \<mapsto> JStr ''Faris'']"]
    clinic_db_patients wf_clinic_patients
  by (auto simp: stored_eq [of clinic_db "''patients''"] patients_store_def extract_key_def
        amal_def dina_def clashes_def)

text \<open>
  The claim C1 as the specification states it fails: an \<^verbatim>\<open>update\<close> of a patient
  whose phone is that of a stored patient with another id is rejected.
\<close>

theorem update_unconditional_counterexample:
  "update clinic_db ''patients'' badr = (Inl ConstraintError, clinic_db)"
  by (simp add: update_def transaction_def clinic_db_def store_put_def patients_store_def
        extract_key_def badr_def amal_def delete_record_def index_conflict_def)

section \<open>Three adds to an empty collection\<close>

lemma clashes_sym: "clashes idxs a b \<Longrightarrow> clashes idxs b a"
  by (auto simp: clashes_def list_ex_iff)

lemma init_patients: "init app_config ''patients'' = Some (patients_store [])"
  by (simp add: init_def app_config_def createObjectStore_def patients_store_def)

lemma different_at: "f x \<noteq> g x \<Longrightarrow> f \<noteq> g"
  by auto

text \<open>
  C8, as the code has it. Into an empty collection, three records are added whose ids
  are valid and pairwise different and no two of which clash on a unique index. The
  three adds resolve and \<^verbatim>\<open>getAll\<close> then lists exactly the three records.
\<close>

theorem getAll_after_three_adds:
  assumes "db storeName = Some store" and "os_records store = []"
    and "extract_key (os_keyPath store) a = Some ka"
    and "extract_key (os_keyPath store) b = Some kb"
    and "extract_key (os_keyPath store) c = Some kc"
    and "ka \<noteq> kb" and "ka \<noteq> kc" and "kb \<noteq> kc"
    and "\<not> clashes (os_indexes store) a b"
    and "\<not> clashes (os_indexes store) a c"
    and "\<not> clashes (os_indexes store) b c"
  shows "\<exists>db1 db2 db3 items.
           add db storeName a = (Inr ka, db1) \<and>
           add db1 storeName b = (Inr kb, db2) \<and>
           add db2 storeName c = (Inr kc, db3) \<and>
           getAll db3 storeName None JNull = Inr items \<and>
           set items = {a, b, c} \<and> length items = 3"
proof -
  let ?idxs = "os_indexes store"
  let ?s1 = "store\<lparr>os_records := insert_record ka a []\<rparr>"
  let ?s2 = "store\<lparr>os_records := insert_record kb b (insert_record ka a [])\<rparr>"
  let ?s3 = "store\<lparr>os_records := insert_record kc c (insert_record kb b (insert_record ka a []))\<rparr>"
  let ?db1 = "db(storeName \<mapsto> ?s1)"
  let ?db2 = "?db1(storeName \<mapsto> ?s2)"
  let ?db3 = "?db2(storeName \<mapsto> ?s3)"
  have nc: "\<not> clashes ?idxs b a" "\<not> clashes ?idxs c a" "\<not> clashes ?idxs c b"
    using assms(9-11) by (auto dest: clashes_sym)
  have 1: "add db storeName a = (Inr ka, ?db1)"
    using add_ok [of db storeName store a ka] assms(1-3)
    by (simp add: index_conflict_iff)
  have 2: "add ?db1 storeName b = (Inr kb, ?db2)"
    using add_ok [of ?db1 storeName ?s1 b kb] assms(4,6) nc(1)
    by (simp add: index_conflict_iff)
  have 3: "add ?db2 storeName c = (Inr kc, ?db3)"
    using add_ok [of ?db2 storeName ?s2 c kc] assms(5,7,8) nc(2,3)
    by (simp add: index_conflict_iff)
  have 4: "getAll ?db3 storeName None JNull = Inr (store_getAll ?s3)"
    by (simp add: getAll_plain)
  have 5: "set (store_getAll ?s3) = {a, b, c}"
    by (auto simp: store_getAll_def)
  have "length (insert_record k v rs) = Suc (length rs)" for k v and rs :: "(idbkey \<times> jsobj) list"
    by (induction rs) auto
  then have 6: "length (store_getAll ?s3) = 3"
    by (simp add: store_getAll_def)
  from 1 2 3 4 5 6 show ?thesis by blast
qed

theorem getAll_after_three_adds_witness:
  "\<exists>db1 db2 db3 items.
     add (init app_config) ''patients'' dina = (Inr (KStr ''p3''), db1) \<and>
     add db1 ''patients'' amal = (Inr (KStr ''p1''), db2) \<and>
     add db2 ''patients'' (badr(''phone'' \<mapsto> JStr ''0503'')) = (Inr (KStr ''p2''), db3) \<and>
     getAll db3 ''patients'' None JNull = Inr items \<and>
     set items = {dina, amal, badr(''phone'' \<mapsto> JStr ''0503'')} \<and> length items = 3"
  using getAll_after_three_adds [of "init app_config" "''patients''" "patients_store []"
      dina "KStr ''p3''" amal "KStr ''p1''" "badr(''phone'' \<mapsto> JStr ''0503'')" "KStr ''p2''"]
    init_patients
  by (simp add: patients_store_def extract_key_def amal_def badr_def dina_def clashes_def)

text \<open>
  The claim C8 as the specification states it fails in the patients collection: of
  three patients with pairwise different ids, two of them with the same phone, the
  second is rejected and \<^verbatim>\<open>getAll\<close> lists the other two.
\<close>

theorem getAll_after_three_adds_counterexample:
  "getAll (snd (add (snd (add (snd (add (init app_config) ''patients'' amal))
                               ''patients'' badr))
                     ''patients'' dina))
          ''patients'' None JNull = Inr [amal, dina] \<and>
   badr \<noteq> amal \<and> badr \<noteq> dina \<and>
   amal ''id'' = Some (JStr ''p1'') \<and> badr ''id'' = Some (JStr ''p2'') \<and>
   dina ''id'' = Some (JStr ''p3'')"
proof -
  have "badr ''id'' \<noteq> amal ''id''" "badr ''id'' \<noteq> dina ''id''"
    by (simp_all add: amal_def badr_def dina_def)
  then have "badr \<noteq> amal" "badr \<noteq> dina"
    by (auto dest: different_at)
  moreover have "getAll (snd (add (snd (add (snd (add (init app_config) ''patients'' amal))
                               ''patients'' badr))
                     ''patients'' dina))
          ''patients'' None JNull = Inr [amal, dina]"
    by (simp add: add_def transaction_def init_patients store_add_def patients_store_def
          extract_key_def has_key_def index_conflict_def getAll_def store_getAll_def
          amal_def badr_def dina_def)
  ultimately show ?thesis
    by (simp add: amal_def badr_def dina_def)
qed

section \<open>States of the application's database\<close>

lemma init_app_config:
  "init app_config =
     [''doctors'' \<mapsto> doctors_store [],
      ''patients'' \<mapsto> patients_store [],
      ''appointments'' \<mapsto> appointments_store []]"
  by (simp add: init_def app_config_def createObjectStore_def patients_store_def
        doctors_store_def appointments_store_def)

lemma init_doctors: "init app_config ''doctors'' = Some (doctors_store [])"
  by (simp add: init_app_config)

lemma init_appointments: "init app_config ''appointments'' = Some (appointments_store [])"
  by (simp add: init_app_config)

lemma app_db_init: "app_db (init app_config)"
proof -
  have "wf_store (patients_store [])" "wf_store (doctors_store [])"
    "wf_store (appointments_store [])"
    by (simp_all add: wf_store_def patients_store_def doctors_store_def appointments_store_def)
  moreover have "store_clear (patients_store []) = patients_store []"
    "store_clear (doctors_store []) = doctors_store []"
    "store_clear (appointments_store []) = appointments_store []"
    by (simp_all add: store_clear_def patients_store_def doctors_store_def
          appointments_store_def)
  ultimately show ?thesis
    unfolding app_db_def init_app_config by (auto split: if_splits)
qed

lemma app_db_upd:
  assumes "app_db db" and "db s = Some store" and "wf_store store'"
    and "store_clear store' = store_clear store"
  shows "app_db (db(s \<mapsto> store'))"
proof -
  from assms(1,2) have "map_option store_clear (db s) = init app_config s"
    unfolding app_db_def by blast
  with assms(2,4) have "Some (store_clear store') = init app_config s" by simp
  with assms(1,3) show ?thesis
    unfolding app_db_def by auto
qed

lemma app_db_wf: "app_db db \<Longrightarrow> db s = Some store \<Longrightarrow> wf_store store"
  unfolding app_db_def by blast

lemma app_db_add: "app_db db \<Longrightarrow> app_db (snd (add db s item))"
  by (auto simp: add_def transaction_def store_clear_def split: option.splits sum.splits
        dest!: store_add_Inr intro!: app_db_upd wf_store_insert dest: app_db_wf)

lemma app_db_update: "app_db db \<Longrightarrow> app_db (snd (update db s item))"
proof (cases "db s")
  case None
  assume "app_db db"
  with None show ?thesis by (simp add: update_def transaction_def)
next
  case (Some store)
  assume a: "app_db db"
  show ?thesis
  proof (cases "store_put store item")
    case (Inl e)
    with a Some show ?thesis by (simp add: update_def transaction_def)
  next
    case (Inr r)
    obtain k store' where r: "r = (k, store')" by (cases r)
    from a Some have "wf_store store" by (rule app_db_wf)
    with Inr r have "wf_store store'" by (auto intro: wf_store_put)
    moreover from Inr r have "store_clear store' = store_clear store"
      by (auto dest!: store_put_Inr simp: store_clear_def)
    ultimately have "app_db (db(s \<mapsto> store'))" using a Some by (auto intro: app_db_upd)
    with Some Inr r show ?thesis by (simp add: update_def transaction_def)
  qed
qed

lemma app_db_delete: "app_db db \<Longrightarrow> app_db (snd (delete db s key))"
  by (auto simp: delete_def transaction_def store_delete_def store_clear_def
        split: option.splits intro!: app_db_upd wf_store_delete dest: app_db_wf)

lemma app_db_clear: "app_db db \<Longrightarrow> app_db (snd (clear db s))"
  by (auto simp: clear_def transaction_def split: option.splits intro!: app_db_upd)
     (simp add: store_clear_def)

lemma app_db_add_each: "app_db db \<Longrightarrow> app_db (snd (add_each db s items))"
proof (induction items arbitrary: db)
  case Nil
  then show ?case by simp
next
  case (Cons x xs)
  from Cons.prems have "app_db (snd (add db s x))" by (rule app_db_add)
  then have "app_db (snd (add_each (snd (add db s x)) s xs))" by (rule Cons.IH)
  then show ?case by (simp add: split_beta Let_def)
qed

lemma app_db_update_each: "app_db db \<Longrightarrow> app_db (snd (update_each db s items))"
proof (induction items arbitrary: db)
  case Nil
  then show ?case by simp
next
  case (Cons x xs)
  from Cons.prems have "app_db (snd (update db s x))" by (rule app_db_update)
  then have "app_db (snd (update_each (snd (update db s x)) s xs))" by (rule Cons.IH)
  then show ?case by (simp add: split_beta Let_def)
qed

lemma app_db_saveAll: "app_db db \<Longrightarrow> app_db (snd (saveAll db d))"
  by (auto simp: saveAll_def split_beta Let_def split: option.splits intro!: app_db_update_each)

lemma app_db_import_adds: "app_db db \<Longrightarrow> app_db (snd (import_adds db d))"
  by (auto simp: import_adds_def split_beta Let_def split: option.splits intro!: app_db_add_each)

lemma app_db_import: "app_db db \<Longrightarrow> app_db (snd (import db t))"
proof (cases t)
  case NotJSON
  assume "app_db db"
  with NotJSON show ?thesis by simp
next
  case (Text d)
  assume a: "app_db db"
  let ?db1 = "snd (clear db ''doctors'')"
  let ?db2 = "snd (clear ?db1 ''patients'')"
  let ?db3 = "snd (clear ?db2 ''appointments'')"
  from a have 1: "app_db ?db1" by (rule app_db_clear)
  then have 2: "app_db ?db2" by (rule app_db_clear)
  then have 3: "app_db ?db3" by (rule app_db_clear)
  then have 4: "app_db (snd (import_adds ?db3 d))" by (rule app_db_import_adds)
  show ?thesis
    using 1 2 3 4 Text by (auto split: prod.splits sum.splits)
qed

lemma app_db_patients:
  assumes "app_db db"
  shows "\<exists>rs. db ''patients'' = Some (patients_store rs) \<and> wf_store (patients_store rs)"
proof -
  from assms have "map_option store_clear (db ''patients'') = Some (patients_store [])"
    unfolding app_db_def init_patients [symmetric] by blast
  then obtain store where s: "db ''patients'' = Some store"
    and c: "store_clear store = patients_store []" by auto
  from c have "store = patients_store (os_records store)"
    by (cases store) (simp add: store_clear_def patients_store_def)
  with s assms show ?thesis by (metis app_db_wf)
qed

lemma phone_keys_patients_store:
  "wf_store (patients_store rs) \<Longrightarrow> distinct (List.map_filter (extract_key ''phone'') (map snd rs))"
  by (simp add: wf_store_def patients_store_def unique_ok_def index_keys_def)

lemma app_db_phones_unique: "app_db db \<Longrightarrow> phones_unique db"
  by (auto simp: phones_unique_def getAll_plain store_getAll_def patients_store_def
        dest!: app_db_patients phone_keys_patients_store)

lemma add_patient_same_phone:
  assumes "app_db db" and "p \<in> stored db ''patients''"
    and "extract_key ''phone'' p = Some ph" and "extract_key ''phone'' item = Some ph"
  shows "\<exists>e. add db ''patients'' item = (Inl e, db)"
proof -
  from assms(1) obtain rs where s: "db ''patients'' = Some (patients_store rs)"
    by (auto dest: app_db_patients)
  with assms(2) have "p \<in> snd ` set rs"
    by (simp add: stored_eq patients_store_def)
  with assms(3,4) have "index_conflict (os_indexes (patients_store rs)) rs item"
    by (auto simp: index_conflict_def patients_store_def list_ex_iff)
  with s show ?thesis
    by (auto simp: add_def transaction_def store_add_def patients_store_def split: option.splits)
qed

lemma add_without_unique_index:
  assumes "db s = Some store" and "list_all (\<lambda>idx. \<not> idx_unique idx) (os_indexes store)"
    and "extract_key (os_keyPath store) item = Some k" and "\<not> has_key k (os_records store)"
  shows "fst (add db s item) = Inr k"
proof -
  from assms(2) have "\<not> index_conflict (os_indexes store) (os_records store) item"
    by (auto simp: index_conflict_def list_all_iff list_ex_iff)
  with assms(1,3,4) show ?thesis
    by (simp add: add_def transaction_def store_add_def)
qed

lemma reachable_app_db: "reachable db \<Longrightarrow> app_db db"
  by (induction rule: reachable.induct)
     (simp_all add: app_db_init app_db_add app_db_update app_db_delete app_db_clear
        app_db_saveAll app_db_import)

lemma clinic_db_eq: "clinic_db = snd (add (init app_config) ''patients'' amal)"
  by (simp add: clinic_db_def add_def transaction_def init_patients store_add_def
        patients_store_def extract_key_def amal_def has_key_def index_conflict_def)

lemma reachable_clinic_db: "reachable clinic_db"
  unfolding clinic_db_eq by (intro reachable.intros)

text \<open>
  C3. In every state the database of the application reaches, no two stored patients
  have the same phone number, and adding a patient whose phone number is that of a
  stored patient is rejected and changes nothing. The rejection comes from the unique
  index of the store and not from a check of \<^verbatim>\<open>add\<close>: in a store none of whose
  indexes is unique, \<^verbatim>\<open>add\<close> resolves for every record with a fresh valid id.
  A phone number is a phone value that is a valid key, a string or a number; the
  index does not hold a record whose phone is missing or is another value.
\<close>

theorem patient_phones_unique:
  assumes "reachable db"
  shows "phones_unique db \<and>
         (\<forall>p\<in>stored db ''patients''. \<forall>ph.
            extract_key ''phone'' p = Some ph \<and> extract_key ''phone'' item = Some ph
              \<longrightarrow> (\<exists>e. add db ''patients'' item = (Inl e, db))) \<and>
         (\<forall>db' s store k.
            db' s = Some store \<and> list_all (\<lambda>idx. \<not> idx_unique idx) (os_indexes store) \<and>
            extract_key (os_keyPath store) item = Some k \<and> \<not> has_key k (os_records store)
              \<longrightarrow> fst (add db' s item) = Inr k)"
proof -
  from assms have a: "app_db db" by (rule reachable_app_db)
  then have "phones_unique db" by (rule app_db_phones_unique)
  moreover have "\<exists>e. add db ''patients'' item = (Inl e, db)"
    if "p \<in> stored db ''patients''" "extract_key ''phone'' p = Some ph"
      "extract_key ''phone'' item = Some ph" for p ph
    using a that by (rule add_patient_same_phone)
  moreover have "fst (add db' s item) = Inr k"
    if "db' s = Some store" "list_all (\<lambda>idx. \<not> idx_unique idx) (os_indexes store)"
      "extract_key (os_keyPath store) item = Some k" "\<not> has_key k (os_records store)"
    for db' s store k
    using that by (rule add_without_unique_index)
  ultimately show ?thesis by blast
qed

theorem patient_phones_unique_witness:
  "phones_unique clinic_db \<and>
   (\<exists>e. add clinic_db ''patients'' badr = (Inl e, clinic_db)) \<and>
   fst (add (init app_config) ''doctors'' doctor_sami) = Inr (KStr ''d1'') \<and>
   fst (add (snd (add (init app_config) ''doctors'' doctor_sami)) ''doctors'' doctor_hala)
     = Inr (KStr ''d2'')"
proof -
  note t = patient_phones_unique [OF reachable_clinic_db]
  have s: "amal \<in> stored clinic_db ''patients''"
    by (simp add: stored_eq [of clinic_db "''patients''"] clinic_db_patients patients_store_def)
  have ph: "extract_key ''phone'' amal = Some (KStr ''0501'')"
    "extract_key ''phone'' badr = Some (KStr ''0501'')"
    by (simp_all add: extract_key_def amal_def badr_def)
  from t [of badr] s ph have 1: "\<exists>e. add clinic_db ''patients'' badr = (Inl e, clinic_db)"
    by blast
  let ?db1 = "snd (add (init app_config) ''doctors'' doctor_sami)"
  have "list_all (\<lambda>idx. \<not> idx_unique idx) (os_indexes (doctors_store []))"
    "extract_key (os_keyPath (doctors_store [])) doctor_sami = Some (KStr ''d1'')"
    "\<not> has_key (KStr ''d1'') (os_records (doctors_store []))"
    by (simp_all add: doctors_store_def extract_key_def doctor_sami_def has_key_def)
  with t [of doctor_sami] init_doctors
  have 2: "fst (add (init app_config) ''doctors'' doctor_sami) = Inr (KStr ''d1'')"
    by blast
  have d1: "?db1 ''doctors'' = Some (doctors_store [(KStr ''d1'', doctor_sami)])"
    by (simp add: add_def transaction_def init_doctors store_add_def doctors_store_def
          extract_key_def doctor_sami_def has_key_def index_conflict_def)
  have "list_all (\<lambda>idx. \<not> idx_unique idx)
          (os_indexes (doctors_store [(KStr ''d1'', doctor_sami)]))"
    "extract_key (os_keyPath (doctors_store [(KStr ''d1'', doctor_sami)])) doctor_hala
       = Some (KStr ''d2'')"
    "\<not> has_key (KStr ''d2'') (os_records (doctors_store [(KStr ''d1'', doctor_sami)]))"
    by (simp_all add: doctors_store_def extract_key_def doctor_hala_def has_key_def)
  with t [of doctor_hala] d1
  have 3: "fst (add ?db1 ''doctors'' doctor_hala) = Inr (KStr ''d2'')"
    by blast
  from t 1 2 3 show ?thesis by blast
qed

section \<open>\<^verbatim>\<open>saveAll\<close>\<close>

lemma update_calls_append:
  "update_calls db (cs @ cs') =
     (fst (update_calls db cs) @ fst (update_calls (snd (update_calls db cs)) cs'),
      snd (update_calls (snd (update_calls db cs)) cs'))"
  by (induction cs arbitrary: db) (simp_all add: split_beta Let_def)

lemma update_calls_each: "update_calls db (map (Pair s) xs) = update_each db s xs"
  by (induction xs arbitrary: db) (simp_all add: split_beta Let_def)

lemma saveAll_update_calls:
  "saveAll db d =
     (Promise_all (fst (update_calls db (bundle_calls d))),
      snd (update_calls db (bundle_calls d)))"
  by (simp add: saveAll_def bundle_calls_def update_calls_append update_calls_each
        split_beta Let_def split: option.splits)

lemma map_of_insert_record_other:
  "k \<noteq> k' \<Longrightarrow> map_of (insert_record k' v rs) k = map_of rs k"
  by (induction rs) auto

lemma map_of_delete_record_other:
  "k \<noteq> k' \<Longrightarrow> map_of (delete_record k' rs) k = map_of rs k"
  unfolding delete_record_def by (induction rs) auto

lemma update_step:
  assumes "db s = Some store"
  shows "\<exists>store'. snd (update db s' y) s = Some store' \<and>
           os_keyPath store' = os_keyPath store \<and> os_indexes store' = os_indexes store \<and>
           (wf_store store \<longrightarrow> wf_store store') \<and>
           ((s' = s \<longrightarrow> extract_key (os_keyPath store) y \<noteq> Some k)
              \<longrightarrow> map_of (os_records store') k = map_of (os_records store) k)"
proof (cases "s' = s")
  case False
  with assms show ?thesis
    by (auto simp: update_def transaction_def split: option.splits sum.splits)
next
  case True
  show ?thesis
  proof (cases "store_put store y")
    case (Inl e)
    with True assms show ?thesis by (simp add: update_def transaction_def)
  next
    case (Inr r)
    obtain k' store' where r: "r = (k', store')" by (cases r)
    with Inr have p: "extract_key (os_keyPath store) y = Some k'"
      "store' = store\<lparr>os_records := insert_record k' y (delete_record k' (os_records store))\<rparr>"
      by (auto dest: store_put_Inr)
    have "wf_store store \<longrightarrow> wf_store store'"
      using Inr r by (auto intro: wf_store_put)
    moreover have "map_of (os_records store') k = map_of (os_records store) k"
      if "extract_key (os_keyPath store) y \<noteq> Some k"
    proof -
      from that p(1) have "k \<noteq> k'" by auto
      then show ?thesis
        by (simp add: p(2) map_of_insert_record_other map_of_delete_record_other)
    qed
    moreover have "snd (update db s' y) s = Some store'"
      using True assms Inr r by (simp add: update_def transaction_def)
    ultimately show ?thesis using True p(2) by auto
  qed
qed

lemma update_calls_frame:
  assumes "db s = Some store"
    and "\<forall>c\<in>set cs. fst c = s \<longrightarrow> extract_key (os_keyPath store) (snd c) \<noteq> Some k"
  shows "\<exists>store'. snd (update_calls db cs) s = Some store' \<and>
           os_keyPath store' = os_keyPath store \<and>
           (wf_store store \<longrightarrow> wf_store store') \<and>
           map_of (os_records store') k = map_of (os_records store) k"
  using assms
proof (induction cs arbitrary: db store)
  case Nil
  then show ?case by simp
next
  case (Cons c cs)
  from update_step [of db s store "fst c" "snd c" k, OF Cons.prems(1)] Cons.prems(2)
  obtain store1 where 1: "snd (update db (fst c) (snd c)) s = Some store1"
    "os_keyPath store1 = os_keyPath store" "wf_store store \<longrightarrow> wf_store store1"
    "map_of (os_records store1) k = map_of (os_records store) k"
    by auto
  from Cons.prems(2) 1(2)
  have "\<forall>c\<in>set cs. fst c = s \<longrightarrow> extract_key (os_keyPath store1) (snd c) \<noteq> Some k"
    by simp
  from Cons.IH [of "snd (update db (fst c) (snd c))" store1, OF 1(1) this] 1(2,3,4) show ?case
    by (auto simp: split_beta Let_def)
qed

lemma update_calls_store:
  assumes "db s = Some store"
  shows "\<exists>store'. snd (update_calls db cs) s = Some store' \<and>
           os_keyPath store' = os_keyPath store \<and> (wf_store store \<longrightarrow> wf_store store')"
  using assms
proof (induction cs arbitrary: db store)
  case Nil
  then show ?case by simp
next
  case (Cons c cs)
  from update_step [of db s store "fst c" "snd c", OF Cons.prems(1)]
  obtain store1 where 1: "snd (update db (fst c) (snd c)) s = Some store1"
    "os_keyPath store1 = os_keyPath store" "wf_store store \<longrightarrow> wf_store store1"
    by auto
  from Cons.IH [of "snd (update db (fst c) (snd c))" store1, OF 1(1)] 1(2,3) show ?case
    by (auto simp: split_beta Let_def)
qed

lemma update_resolved_get:
  assumes "db s = Some store" and "wf_store store" and "fst (update db s item) = Inr k"
  shows "\<exists>store'. snd (update db s item) s = Some store' \<and>
           os_keyPath store' = os_keyPath store \<and> wf_store store' \<and>
           extract_key (os_keyPath store) item = Some k \<and>
           map_of (os_records store') k = Some item"
proof -
  from assms(1,3) obtain store' where p: "store_put store item = Inr (k, store')"
    by (auto simp: update_def transaction_def split: sum.splits)
  then have e: "extract_key (os_keyPath store) item = Some k"
    and s: "store' = store\<lparr>os_records := insert_record k item (delete_record k (os_records store))\<rparr>"
    by (auto dest: store_put_Inr)
  from assms(2) p have w: "wf_store store'" by (rule wf_store_put)
  then have "map_of (os_records store') k = Some item"
    by (auto simp: wf_store_def s intro!: map_of_stored)
  moreover from assms(1) p have "snd (update db s item) s = Some store'"
    by (simp add: update_def transaction_def)
  ultimately show ?thesis using e w s by auto
qed

lemma update_rejected: "fst (update db s item) = Inl e \<Longrightarrow> snd (update db s item) = db"
  by (auto simp: update_def transaction_def split: option.splits sum.splits)

text \<open>
  C5, as the code has it. \<^verbatim>\<open>saveAll\<close> has the effect of one independent
  \<^verbatim>\<open>update\<close> call per record of the doctors, patients and appointments arrays, in
  that grouping, and is no atomic transaction: a call that is rejected is skipped and
  the effects of the other calls stay. A listed record whose call resolves is stored
  afterwards unless a later listed record of the same collection has its id, and a
  stored record whose id is not listed for its collection is unchanged.
\<close>

theorem saveAll_independent_updates:
  "saveAll db d =
     (Promise_all (fst (update_calls db (bundle_calls d))),
      snd (update_calls db (bundle_calls d))) \<and>
   (\<forall>pre s item post e.
      bundle_calls d = pre @ (s, item) # post \<and>
      fst (update (snd (update_calls db pre)) s item) = Inl e
        \<longrightarrow> snd (saveAll db d) = snd (update_calls db (pre @ post))) \<and>
   (\<forall>pre s item post store k.
      bundle_calls d = pre @ (s, item) # post \<and> db s = Some store \<and> wf_store store \<and>
      fst (update (snd (update_calls db pre)) s item) = Inr k \<and>
      (\<forall>c\<in>set post. fst c = s \<longrightarrow> extract_key (os_keyPath store) (snd c) \<noteq> Some k)
        \<longrightarrow> get (snd (saveAll db d)) s (key_val k) = Inr (Some item)) \<and>
   (\<forall>s store k.
      db s = Some store \<and>
      (\<forall>item\<in>set (listed d s). extract_key (os_keyPath store) item \<noteq> Some k)
        \<longrightarrow> get (snd (saveAll db d)) s (key_val k) = get db s (key_val k))"
proof (intro conjI allI impI)
  show "saveAll db d =
     (Promise_all (fst (update_calls db (bundle_calls d))),
      snd (update_calls db (bundle_calls d)))"
    by (rule saveAll_update_calls)
next
  fix pre s item post e
  assume a: "bundle_calls d = pre @ (s, item) # post \<and>
      fst (update (snd (update_calls db pre)) s item) = Inl e"
  then have "snd (update (snd (update_calls db pre)) s item) = snd (update_calls db pre)"
    by (auto dest: update_rejected)
  with a show "snd (saveAll db d) = snd (update_calls db (pre @ post))"
    by (simp add: saveAll_update_calls update_calls_append split_beta Let_def)
next
  fix pre s item post store k
  assume a: "bundle_calls d = pre @ (s, item) # post \<and> db s = Some store \<and> wf_store store \<and>
      fst (update (snd (update_calls db pre)) s item) = Inr k \<and>
      (\<forall>c\<in>set post. fst c = s \<longrightarrow> extract_key (os_keyPath store) (snd c) \<noteq> Some k)"
  let ?db1 = "snd (update_calls db pre)"
  let ?db2 = "snd (update ?db1 s item)"
  from a update_calls_store [of db s store pre]
  obtain store1 where 1: "?db1 s = Some store1" "os_keyPath store1 = os_keyPath store"
    "wf_store store1" by auto
  from a update_resolved_get [of ?db1 s store1 item k, OF 1(1) 1(3)]
  obtain store2 where 2: "?db2 s = Some store2" "os_keyPath store2 = os_keyPath store1"
    "map_of (os_records store2) k = Some item" by auto
  from a 1(2) 2(2)
  have "\<forall>c\<in>set post. fst c = s \<longrightarrow> extract_key (os_keyPath store2) (snd c) \<noteq> Some k"
    by simp
  from update_calls_frame [of ?db2 s store2 post k, OF 2(1) this] 2(3)
  obtain store3 where 3: "snd (update_calls ?db2 post) s = Some store3"
    "map_of (os_records store3) k = Some item" by auto
  from a have "snd (saveAll db d) = snd (update_calls ?db2 post)"
    by (simp add: saveAll_update_calls update_calls_append split_beta Let_def)
  with 3 show "get (snd (saveAll db d)) s (key_val k) = Inr (Some item)"
    by (simp add: get_key)
next
  fix s store k
  assume a: "db s = Some store \<and>
      (\<forall>item\<in>set (listed d s). extract_key (os_keyPath store) item \<noteq> Some k)"
  then have "\<forall>c\<in>set (bundle_calls d). fst c = s \<longrightarrow> extract_key (os_keyPath store) (snd c) \<noteq> Some k"
    by (auto simp: listed_def)
  with a update_calls_frame [of db s store "bundle_calls d" k]
  obtain store' where "snd (update_calls db (bundle_calls d)) s = Some store'"
    "map_of (os_records store') k = map_of (os_records store) k" by auto
  with a show "get (snd (saveAll db d)) s (key_val k) = get db s (key_val k)"
    by (simp add: saveAll_update_calls get_key)
qed

lemma bundle_calls_sample:
  "bundle_calls sample_data =
     [(''doctors'', doctor_sami), (''patients'', badr)] @ (''patients'', dina) # []"
  "bundle_calls sample_data = [(''doctors'', doctor_sami)] @ (''patients'', badr) # [(''patients'', dina)]"
  by (simp_all add: bundle_calls_def sample_data_def)

lemma clinic_db_after_sami:
  "snd (update clinic_db ''doctors'' doctor_sami) =
     clinic_db(''doctors'' \<mapsto> doctors_store [(KStr ''d1'', doctor_sami)])"
  by (simp add: update_def transaction_def clinic_db_def init_app_config store_put_def
        doctors_store_def extract_key_def doctor_sami_def delete_record_def index_conflict_def)

theorem saveAll_independent_updates_witness:
  "fst (saveAll clinic_db sample_data) = Inl ConstraintError \<and>
   snd (saveAll clinic_db sample_data) =
     snd (update_calls clinic_db [(''doctors'', doctor_sami), (''patients'', dina)]) \<and>
   get (snd (saveAll clinic_db sample_data)) ''patients'' (JStr ''p3'') = Inr (Some dina) \<and>
   get (snd (saveAll clinic_db sample_data)) ''patients'' (JStr ''p1'') = Inr (Some amal)"
proof -
  note t = saveAll_independent_updates [of clinic_db sample_data]
  let ?db1 = "clinic_db(''doctors'' \<mapsto> doctors_store [(KStr ''d1'', doctor_sami)])"
  have u1: "snd (update_calls clinic_db [(''doctors'', doctor_sami)]) = ?db1"
    by (simp add: clinic_db_after_sami split_beta Let_def)
  have u2: "update ?db1 ''patients'' badr = (Inl ConstraintError, ?db1)"
    by (simp add: update_def transaction_def clinic_db_def store_put_def patients_store_def
          extract_key_def badr_def amal_def delete_record_def index_conflict_def)
  have u3: "fst (update ?db1 ''patients'' dina) = Inr (KStr ''p3'')"
    by (simp add: update_def transaction_def clinic_db_def store_put_def patients_store_def
          extract_key_def dina_def amal_def delete_record_def index_conflict_def)
  have u12: "snd (update_calls clinic_db [(''doctors'', doctor_sami), (''patients'', badr)]) = ?db1"
    by (simp add: clinic_db_after_sami u2 split_beta Let_def)
  have r: "fst (update_calls clinic_db (bundle_calls sample_data)) =
             [Inr (KStr ''d1''), Inl ConstraintError, Inr (KStr ''p3'')]"
    using u3 by (simp add: bundle_calls_sample(1) clinic_db_after_sami u2 split_beta Let_def)
       (simp add: update_def transaction_def clinic_db_def init_app_config store_put_def
          doctors_store_def extract_key_def doctor_sami_def delete_record_def index_conflict_def)
  from t r have 1: "fst (saveAll clinic_db sample_data) = Inl ConstraintError"
    by (simp add: Promise_all_def)
  from t [THEN conjunct2, THEN conjunct1, rule_format,
      of "[(''doctors'', doctor_sami)]" "''patients''" badr "[(''patients'', dina)]" ConstraintError]
  have 2: "snd (saveAll clinic_db sample_data) =
     snd (update_calls clinic_db [(''doctors'', doctor_sami), (''patients'', dina)])"
    by (simp add: bundle_calls_sample(2) u1 u2 del: update_calls.simps)
  from t [THEN conjunct2, THEN conjunct2, THEN conjunct1, rule_format,
      of "[(''doctors'', doctor_sami), (''patients'', badr)]" "''patients''" dina "[]"
         "patients_store [(KStr ''p1'', amal)]" "KStr ''p3''"]
  have 3: "get (snd (saveAll clinic_db sample_data)) ''patients'' (JStr ''p3'') = Inr (Some dina)"
    using clinic_db_patients wf_clinic_patients
    by (simp add: bundle_calls_sample(1) u12 u3 del: update_calls.simps)
  from t [THEN conjunct2, THEN conjunct2, THEN conjunct2, rule_format,
      of "''patients''" "patients_store [(KStr ''p1'', amal)]" "KStr ''p1''"]
  have 4: "get (snd (saveAll clinic_db sample_data)) ''patients'' (JStr ''p1'') = Inr (Some amal)"
    using clinic_db_patients
    by (simp add: listed_def bundle_calls_sample(1) patients_store_def extract_key_def
          badr_def dina_def get_def transaction_def store_get_def)
  from 1 2 3 4 show ?thesis by simp
qed

text \<open>
  The claim C5 as the specification states it fails: a patient listed in the bundle
  whose phone is that of a stored patient with another id is not upserted.
\<close>

theorem saveAll_upserts_all_counterexample:
  "fst (saveAll clinic_db \<lparr>doctors = None, patients = Some [badr], appointments = None\<rparr>)
     = Inl ConstraintError \<and>
   get (snd (saveAll clinic_db \<lparr>doctors = None, patients = Some [badr], appointments = None\<rparr>))
     ''patients'' (JStr ''p2'') = Inr None"
  by (simp add: saveAll_def update_def transaction_def clinic_db_def store_put_def
        patients_store_def extract_key_def badr_def amal_def delete_record_def
        index_conflict_def get_def store_get_def Promise_all_def)

section \<open>\<^verbatim>\<open>export\<close> and \<^verbatim>\<open>import\<close>\<close>

lemma clinic_db_doctors: "clinic_db ''doctors'' = Some (doctors_store [])"
  by (simp add: clinic_db_def init_app_config)

lemma clinic_db_appointments: "clinic_db ''appointments'' = Some (appointments_store [])"
  by (simp add: clinic_db_def init_app_config)

subsection \<open>Facts about the loops of \<^verbatim>\<open>import\<close>\<close>

lemma Promise_all_append:
  "(Promise_all (ps @ qs) = Inr ks) =
     (\<exists>xs ys. Promise_all ps = Inr xs \<and> Promise_all qs = Inr ys \<and> ks = xs @ ys)"
  by (auto simp: Promise_all_iff append_eq_map_conv)

lemma Promise_all_resolved: "Promise_all (map (\<lambda>r. Inr (f r)) rs) = Inr (map f rs)"
  by (simp add: Promise_all_iff)

lemma add_resolved:
  assumes "db s = Some store" and "fst (add db s x) = Inr k"
  shows "snd (add db s x) = db(s \<mapsto> store\<lparr>os_records := insert_record k x (os_records store)\<rparr>)"
  using assms
  by (auto simp: add_def transaction_def split: sum.splits dest!: store_add_Inr)

lemma add_rejected: "fst (add db s x) = Inl e \<Longrightarrow> snd (add db s x) = db"
  by (auto simp: add_def transaction_def split: option.splits sum.splits)

lemma add_each_store:
  assumes "db s = Some store"
  shows "\<exists>store'. snd (add_each db s xs) = db(s \<mapsto> store') \<and>
           os_keyPath store' = os_keyPath store \<and> os_indexes store' = os_indexes store \<and>
           (\<forall>ks. Promise_all (fst (add_each db s xs)) = Inr ks
              \<longrightarrow> mset (map snd (os_records store')) = mset (map snd (os_records store)) + mset xs)"
  using assms
proof (induction xs arbitrary: db store)
  case Nil
  then show ?case by (auto intro!: exI [of _ store])
next
  case (Cons x xs)
  show ?case
  proof (cases "fst (add db s x)")
    case (Inl e)
    then have u: "snd (add db s x) = db" by (rule add_rejected)
    from Cons.IH [of db store, OF Cons.prems]
    obtain store' where "snd (add_each db s xs) = db(s \<mapsto> store')"
      "os_keyPath store' = os_keyPath store" "os_indexes store' = os_indexes store"
      by blast
    with Inl u show ?thesis
      by (auto simp: split_beta Let_def Promise_all_iff Cons_eq_map_conv)
  next
    case (Inr k)
    let ?store1 = "store\<lparr>os_records := insert_record k x (os_records store)\<rparr>"
    let ?db1 = "db(s \<mapsto> ?store1)"
    from Cons.prems Inr have u: "snd (add db s x) = ?db1" by (rule add_resolved)
    have "?db1 s = Some ?store1" by simp
    from Cons.IH [of ?db1 ?store1, OF this]
    obtain store' where 1: "snd (add_each ?db1 s xs) = ?db1(s \<mapsto> store')"
      "os_keyPath store' = os_keyPath ?store1" "os_indexes store' = os_indexes ?store1"
      "\<forall>ks. Promise_all (fst (add_each ?db1 s xs)) = Inr ks
         \<longrightarrow> mset (map snd (os_records store')) = mset (map snd (os_records ?store1)) + mset xs"
      by blast
    have "mset (map snd (os_records store')) = mset (map snd (os_records store)) + mset (x # xs)"
      if "Promise_all (fst (add_each db s (x # xs))) = Inr ks" for ks
    proof -
      from that Inr u obtain ks' where "Promise_all (fst (add_each ?db1 s xs)) = Inr ks'"
        by (auto simp: split_beta Let_def Promise_all_iff Cons_eq_map_conv)
      with 1(4) show ?thesis by simp
    qed
    with 1(1-3) u show ?thesis
      by (intro exI [of _ store']) (simp add: split_beta Let_def)
  qed
qed

lemma unique_ok_tl: "unique_ok idxs (item # items) \<Longrightarrow> unique_ok idxs items"
  by (auto simp: unique_ok_def list_all_iff index_keys_Cons split: option.splits)

lemma no_conflict_with_earlier:
  assumes "unique_ok idxs (map snd (pre @ (k, v) # post))"
  shows "\<not> index_conflict idxs pre v"
proof -
  have "mset (map snd (pre @ (k, v) # post)) = mset (v # map snd (pre @ post))" by simp
  with assms have u: "unique_ok idxs (v # map snd (pre @ post))"
    using unique_ok_mset by blast
  then have "unique_ok idxs (map snd (pre @ post))" by (rule unique_ok_tl)
  with u unique_ok_Cons [of idxs "pre @ post" v]
  have "\<not> index_conflict idxs (pre @ post) v" by blast
  then show ?thesis by (auto simp: index_conflict_iff)
qed

lemma add_each_rebuild:
  assumes "db s = Some (store0\<lparr>os_records := pre\<rparr>)"
    and "wf_store (store0\<lparr>os_records := pre @ post\<rparr>)"
  shows "add_each db s (map snd post) =
           (map (\<lambda>r. Inr (fst r)) post, db(s \<mapsto> store0\<lparr>os_records := pre @ post\<rparr>))"
  using assms
proof (induction post arbitrary: pre db)
  case Nil
  then show ?case by (simp add: fun_upd_idem)
next
  case (Cons r post)
  obtain k v where r: "r = (k, v)" by (cases r)
  let ?store = "store0\<lparr>os_records := pre\<rparr>"
  let ?db1 = "db(s \<mapsto> store0\<lparr>os_records := pre @ [(k, v)]\<rparr>)"
  from Cons.prems(2) r have w: "sorted_wrt (<) (map fst pre @ k # map fst post)"
    "extract_key (os_keyPath store0) v = Some k"
    "unique_ok (os_indexes store0) (map snd (pre @ (k, v) # post))"
    by (simp_all add: wf_store_def)
  from w(1) have lt: "\<forall>r\<in>set pre. fst r < k"
    by (auto simp: sorted_wrt_append)
  then have "k \<notin> fst ` set pre" by auto
  moreover from w(3) have "\<not> index_conflict (os_indexes store0) pre v"
    by (rule no_conflict_with_earlier)
  ultimately have a: "add db s v = (Inr k, ?db1)"
    using add_ok [of db s ?store v k] Cons.prems(1) w(2) lt
    by (simp add: insert_record_append)
  have "?db1 s = Some (store0\<lparr>os_records := pre @ [(k, v)]\<rparr>)" by simp
  moreover have "wf_store (store0\<lparr>os_records := (pre @ [(k, v)]) @ post\<rparr>)"
    using Cons.prems(2) r by simp
  ultimately have "add_each ?db1 s (map snd post) =
      (map (\<lambda>r. Inr (fst r)) post, ?db1(s \<mapsto> store0\<lparr>os_records := (pre @ [(k, v)]) @ post\<rparr>))"
    by (rule Cons.IH)
  with a r show ?case by (simp del: fun_upd_apply)
qed

lemma json_value_roundtrip: "json_value v \<Longrightarrow> map_option parse_val (stringify_val v) = Some v"
  by (cases v) simp_all

lemma parse_stringify: "json_record item \<Longrightarrow> parse_obj (stringify_obj item) = item"
  by (rule ext)
     (auto simp: parse_obj_def stringify_obj_def json_record_def json_value_roundtrip
        split: option.splits)


lemma import_Text:
  assumes "db ''doctors'' = Some sd" and "db ''patients'' = Some sp"
    and "db ''appointments'' = Some sa"
  shows "import db (Text d) =
           import_adds (db(''doctors'' \<mapsto> store_clear sd, ''patients'' \<mapsto> store_clear sp,
                          ''appointments'' \<mapsto> store_clear sa)) d"
  using assms by (simp add: clear_def transaction_def)

text \<open>
  C4. For a bundle with the three arrays and any prior state of the three collections,
  \<^verbatim>\<open>import\<close> does what its adds do on the emptied collections, and when it
  resolves each collection holds exactly the records of the bundle's array of its name.
  The member \<open>version\<close> of the bundle is not looked at.
\<close>

theorem import_replaces_contents:
  assumes "db ''doctors'' = Some sd" and "db ''patients'' = Some sp"
    and "db ''appointments'' = Some sa"
    and "doc_doctors d = Some ds" and "doc_patients d = Some ps"
    and "doc_appointments d = Some as"
    and "fst (import db (Text d)) = Inr ks"
  shows "import db (Text d) =
           import_adds (db(''doctors'' \<mapsto> store_clear sd, ''patients'' \<mapsto> store_clear sp,
                          ''appointments'' \<mapsto> store_clear sa)) d \<and>
         (\<exists>items. getAll (snd (import db (Text d))) ''doctors'' None JNull = Inr items \<and>
                  mset items = mset (map parse_obj ds)) \<and>
         (\<exists>items. getAll (snd (import db (Text d))) ''patients'' None JNull = Inr items \<and>
                  mset items = mset (map parse_obj ps)) \<and>
         (\<exists>items. getAll (snd (import db (Text d))) ''appointments'' None JNull = Inr items \<and>
                  mset items = mset (map parse_obj as)) \<and>
         import db (Text (d\<lparr>doc_version := v\<rparr>)) = import db (Text d)"
proof -
  define db3 where "db3 = db(''doctors'' \<mapsto> store_clear sd, ''patients'' \<mapsto> store_clear sp,
                 ''appointments'' \<mapsto> store_clear sa)"
  define a1 where "a1 = add_each db3 ''doctors'' (map parse_obj ds)"
  define a2 where "a2 = add_each (snd a1) ''patients'' (map parse_obj ps)"
  define a3 where "a3 = add_each (snd a2) ''appointments'' (map parse_obj as)"
  have i: "import db (Text d) = import_adds db3 d"
    unfolding db3_def using assms(1-3) by (rule import_Text)
  have ia: "import_adds db3 d = (Promise_all (fst a1 @ fst a2 @ fst a3), snd a3)"
    using assms(4-6) by (simp add: import_adds_def split_beta Let_def a1_def a2_def a3_def)
  with i assms(7) obtain k1 k2 k3 where ok: "Promise_all (fst a1) = Inr k1"
    "Promise_all (fst a2) = Inr k2" "Promise_all (fst a3) = Inr k3"
    by (auto simp: Promise_all_append)
  have "db3 ''doctors'' = Some (store_clear sd)" by (simp add: db3_def)
  from add_each_store [of db3 "''doctors''" "store_clear sd" "map parse_obj ds", OF this] ok(1)
  obtain sd' where 1: "snd a1 = db3(''doctors'' \<mapsto> sd')"
    "mset (map snd (os_records sd')) = mset (map parse_obj ds)"
    unfolding a1_def by (auto simp: store_clear_def)
  then have "snd a1 ''patients'' = Some (store_clear sp)" by (simp add: db3_def)
  from add_each_store [of "snd a1" "''patients''" "store_clear sp" "map parse_obj ps", OF this] ok(2)
  obtain sp' where 2: "snd a2 = (snd a1)(''patients'' \<mapsto> sp')"
    "mset (map snd (os_records sp')) = mset (map parse_obj ps)"
    unfolding a2_def by (auto simp: store_clear_def)
  with 1 have "snd a2 ''appointments'' = Some (store_clear sa)" by (simp add: db3_def)
  from add_each_store [of "snd a2" "''appointments''" "store_clear sa" "map parse_obj as", OF this]
    ok(3)
  obtain sa' where 3: "snd a3 = (snd a2)(''appointments'' \<mapsto> sa')"
    "mset (map snd (os_records sa')) = mset (map parse_obj as)"
    unfolding a3_def by (auto simp: store_clear_def)
  have s: "snd (import db (Text d)) = snd a3"
    by (simp only: i ia snd_conv)
  have "snd a3 ''doctors'' = Some sd'" "snd a3 ''patients'' = Some sp'"
    "snd a3 ''appointments'' = Some sa'"
    by (simp_all add: 1(1) 2(1) 3(1))
  then have g: "getAll (snd a3) ''doctors'' None JNull = Inr (store_getAll sd')"
    "getAll (snd a3) ''patients'' None JNull = Inr (store_getAll sp')"
    "getAll (snd a3) ''appointments'' None JNull = Inr (store_getAll sa')"
    by (simp_all add: getAll_plain)
  have v: "import db (Text (d\<lparr>doc_version := v\<rparr>)) = import db (Text d)"
  proof -
    have "import db (Text (d\<lparr>doc_version := v\<rparr>)) = import_adds db3 (d\<lparr>doc_version := v\<rparr>)"
      unfolding db3_def using assms(1-3) by (rule import_Text)
    also have "\<dots> = import_adds db3 d" by (simp add: import_adds_def)
    finally show ?thesis by (simp only: i)
  qed
  from i g 1(2) 2(2) 3(2) v show ?thesis
    unfolding s db3_def by (simp add: store_getAll_def del: import.simps)
qed

lemma json_record_samples: "json_record amal" "json_record dina" "json_record doctor_sami"
  by (auto simp: json_record_def amal_def dina_def doctor_sami_def split: if_splits)

theorem import_replaces_contents_witness:
  "(\<exists>items. getAll (snd (import clinic_db (Text sample_document))) ''doctors'' None JNull
              = Inr items \<and> mset items = {#doctor_sami#}) \<and>
   (\<exists>items. getAll (snd (import clinic_db (Text sample_document))) ''patients'' None JNull
              = Inr items \<and> mset items = {#dina, amal#}) \<and>
   (\<exists>items. getAll (snd (import clinic_db (Text sample_document))) ''appointments'' None JNull
              = Inr items \<and> mset items = {#}) \<and>
   import clinic_db (Text (sample_document\<lparr>doc_version := Some (JsNum 2)\<rparr>))
     = import clinic_db (Text sample_document)"
proof -
  have d: "doc_doctors sample_document = Some [stringify_obj doctor_sami]"
    "doc_patients sample_document = Some [stringify_obj dina, stringify_obj amal]"
    "doc_appointments sample_document = Some []"
    by (simp_all add: sample_document_def)
  have "import clinic_db (Text sample_document) =
          import_adds (clinic_db(''doctors'' \<mapsto> store_clear (doctors_store []),
             ''patients'' \<mapsto> store_clear (patients_store [(KStr ''p1'', amal)]),
             ''appointments'' \<mapsto> store_clear (appointments_store []))) sample_document"
    using clinic_db_doctors clinic_db_patients clinic_db_appointments by (rule import_Text)
  then have r: "fst (import clinic_db (Text sample_document))
                  = Inr [KStr ''d1'', KStr ''p3'', KStr ''p1'']"
    by (simp add: import_adds_def d parse_stringify json_record_samples del: import.simps)
       (simp add: add_def transaction_def store_add_def store_clear_def doctors_store_def
          patients_store_def appointments_store_def extract_key_def has_key_def
          index_conflict_def amal_def dina_def doctor_sami_def Promise_all_def)
  from import_replaces_contents [of clinic_db "doctors_store []"
      "patients_store [(KStr ''p1'', amal)]" "appointments_store []" sample_document
      "[stringify_obj doctor_sami]" "[stringify_obj dina, stringify_obj amal]" "[]"
      "[KStr ''d1'', KStr ''p3'', KStr ''p1'']" "Some (JsNum 2)",
      OF clinic_db_doctors clinic_db_patients clinic_db_appointments d r, THEN conjunct2]
  show ?thesis
    by (simp add: parse_stringify json_record_samples del: import.simps)
qed

subsection \<open>The round trip\<close>

lemma app_db_store:
  assumes "app_db db" and "init app_config s = Some store0"
  shows "\<exists>rs. db s = Some (store0\<lparr>os_records := rs\<rparr>) \<and> wf_store (store0\<lparr>os_records := rs\<rparr>)"
proof -
  from assms have "map_option store_clear (db s) = Some store0"
    unfolding app_db_def by metis
  then obtain store where s: "db s = Some store" and c: "store_clear store = store0" by auto
  from c have "store = store0\<lparr>os_records := os_records store\<rparr>"
    by (cases store) (auto simp: store_clear_def)
  with s assms(1) show ?thesis by (metis app_db_wf)
qed

lemma app_db_no_store: "app_db db \<Longrightarrow> init app_config s = None \<Longrightarrow> db s = None"
  unfolding app_db_def by (metis option.map_disc_iff)

lemma app_db_stores:
  assumes "app_db db"
  shows "\<exists>rd rp ra.
           db = [''doctors'' \<mapsto> doctors_store rd, ''patients'' \<mapsto> patients_store rp,
                 ''appointments'' \<mapsto> appointments_store ra] \<and>
           wf_store (doctors_store rd) \<and> wf_store (patients_store rp) \<and>
           wf_store (appointments_store ra)"
proof -
  from app_db_store [OF assms init_doctors] obtain rd
    where d: "db ''doctors'' = Some (doctors_store rd)" "wf_store (doctors_store rd)"
    by (auto simp: doctors_store_def)
  from app_db_store [OF assms init_patients] obtain rp
    where p: "db ''patients'' = Some (patients_store rp)" "wf_store (patients_store rp)"
    by (auto simp: patients_store_def)
  from app_db_store [OF assms init_appointments] obtain ra
    where a: "db ''appointments'' = Some (appointments_store ra)"
      "wf_store (appointments_store ra)"
    by (auto simp: appointments_store_def)
  have "db s = [''doctors'' \<mapsto> doctors_store rd, ''patients'' \<mapsto> patients_store rp,
                ''appointments'' \<mapsto> appointments_store ra] s" for s
  proof (cases "s \<in> {''doctors'', ''patients'', ''appointments''}")
    case True
    with d(1) p(1) a(1) show ?thesis by auto
  next
    case False
    then have "init app_config s = None" by (simp add: init_app_config)
    with assms have "db s = None" by (rule app_db_no_store)
    with False show ?thesis by simp
  qed
  then have "db = [''doctors'' \<mapsto> doctors_store rd, ''patients'' \<mapsto> patients_store rp,
                   ''appointments'' \<mapsto> appointments_store ra]" by (rule ext)
  with d(2) p(2) a(2) show ?thesis by blast
qed

lemma add_each_from_empty:
  assumes "db s = Some store0" and "os_records store0 = []"
    and "wf_store (store0\<lparr>os_records := rs\<rparr>)"
  shows "add_each db s (map snd rs) =
           (map (\<lambda>r. Inr (fst r)) rs, db(s \<mapsto> store0\<lparr>os_records := rs\<rparr>))"
proof -
  from assms(2) have "store0\<lparr>os_records := []\<rparr> = store0" by simp
  with assms(1) have "db s = Some (store0\<lparr>os_records := []\<rparr>)" by simp
  moreover from assms(3) have "wf_store (store0\<lparr>os_records := [] @ rs\<rparr>)" by simp
  ultimately have "add_each db s (map snd rs) =
      (map (\<lambda>r. Inr (fst r)) rs, db(s \<mapsto> store0\<lparr>os_records := [] @ rs\<rparr>))"
    by (rule add_each_rebuild)
  then show ?thesis by simp
qed

lemma stores_overwrite:
  "(init app_config)(''doctors'' \<mapsto> d, ''patients'' \<mapsto> p, ''appointments'' \<mapsto> a) =
     [''doctors'' \<mapsto> d, ''patients'' \<mapsto> p, ''appointments'' \<mapsto> a]"
  by (rule ext) (simp add: init_app_config)

lemma first_run_cleared:
  "(init app_config)(''doctors'' \<mapsto> store_clear (doctors_store []),
       ''patients'' \<mapsto> store_clear (patients_store []),
       ''appointments'' \<mapsto> store_clear (appointments_store [])) = init app_config"
  by (rule ext)
     (simp add: init_app_config store_clear_def doctors_store_def patients_store_def
        appointments_store_def)

lemma json_records_roundtrip:
  "\<forall>item\<in>set items. json_record item \<Longrightarrow> map parse_obj (map stringify_obj items) = items"
  by (induction items) (simp_all add: parse_stringify)

text \<open>
  C2, as the code has it. For every state the application's database reaches in which
  every property of every record holds a value that JSON can write, the text that
  \<^verbatim>\<open>export\<close> produces, given to \<^verbatim>\<open>import\<close> on the database of a first
  run, is imported without a rejection and yields the original state: the three
  collections list the same records.
\<close>

theorem export_import_roundtrip:
  assumes "reachable db" and "json_safe db"
  shows "(\<exists>ks. export_then_import db now = (Inr ks, db)) \<and>
         (\<forall>storeName\<in>{''doctors'', ''patients'', ''appointments''}.
            getAll (snd (export_then_import db now)) storeName None JNull =
            getAll db storeName None JNull)"
proof -
  from assms(1) have "app_db db" by (rule reachable_app_db)
  then obtain rd rp ra
    where db: "db = [''doctors'' \<mapsto> doctors_store rd, ''patients'' \<mapsto> patients_store rp,
                     ''appointments'' \<mapsto> appointments_store ra]"
      and wf: "wf_store (doctors_store rd)" "wf_store (patients_store rp)"
        "wf_store (appointments_store ra)"
    using app_db_stores by blast
  have l: "db ''doctors'' = Some (doctors_store rd)" "db ''patients'' = Some (patients_store rp)"
    "db ''appointments'' = Some (appointments_store ra)"
    by (simp_all add: db)
  define doc where "doc =
     \<lparr>doc_doctors = Some (map stringify_obj (map snd rd)),
      doc_patients = Some (map stringify_obj (map snd rp)),
      doc_appointments = Some (map stringify_obj (map snd ra)),
      doc_exportedAt = Some (JsStr (toISOString now)),
      doc_version = Some (JsNum (cfg_version app_config))\<rparr>"
  have e: "export app_config db now = Inr (Text doc)"
    using l by (simp add: export_def getAll_plain store_getAll_def doc_def doctors_store_def
          patients_store_def appointments_store_def)
  from assms(2) l have "\<forall>item\<in>set (map snd rd). json_record item"
    "\<forall>item\<in>set (map snd rp). json_record item" "\<forall>item\<in>set (map snd ra). json_record item"
    by (simp_all add: json_safe_def stored_eq doctors_store_def patients_store_def
          appointments_store_def)
  then have j: "map parse_obj (map stringify_obj (map snd rd)) = map snd rd"
    "map parse_obj (map stringify_obj (map snd rp)) = map snd rp"
    "map parse_obj (map stringify_obj (map snd ra)) = map snd ra"
    by (simp_all only: json_records_roundtrip)
  let ?db0 = "init app_config"
  let ?db1 = "?db0(''doctors'' \<mapsto> doctors_store rd)"
  let ?db2 = "?db1(''patients'' \<mapsto> patients_store rp)"
  let ?db3 = "?db2(''appointments'' \<mapsto> appointments_store ra)"
  have a1: "add_each ?db0 ''doctors'' (map snd rd) = (map (\<lambda>r. Inr (fst r)) rd, ?db1)"
    using add_each_from_empty [of ?db0 "''doctors''" "doctors_store []" rd] wf(1)
    by (simp add: init_doctors) (simp add: doctors_store_def)
  have a2: "add_each ?db1 ''patients'' (map snd rp) = (map (\<lambda>r. Inr (fst r)) rp, ?db2)"
    using add_each_from_empty [of ?db1 "''patients''" "patients_store []" rp] wf(2)
    by (simp add: init_patients) (simp add: patients_store_def)
  have a3: "add_each ?db2 ''appointments'' (map snd ra) = (map (\<lambda>r. Inr (fst r)) ra, ?db3)"
    using add_each_from_empty [of ?db2 "''appointments''" "appointments_store []" ra] wf(3)
    by (simp add: init_appointments) (simp add: appointments_store_def)
  have d3: "?db3 = db"
    unfolding db by (rule stores_overwrite)
  have ia: "import_adds ?db0 doc =
              (Promise_all (map (\<lambda>r. Inr (fst r)) (rd @ rp @ ra)), db)"
    unfolding import_adds_def doc_def
    by (simp only: json_document.select_convs option.case j a1 a2 a3 Let_def prod.case
          map_append d3)
  have "import ?db0 (Text doc) =
          import_adds (?db0(''doctors'' \<mapsto> store_clear (doctors_store []),
             ''patients'' \<mapsto> store_clear (patients_store []),
             ''appointments'' \<mapsto> store_clear (appointments_store []))) doc"
    using init_doctors init_patients init_appointments by (rule import_Text)
  with ia have i: "import ?db0 (Text doc) = (Inr (map fst (rd @ rp @ ra)), db)"
    by (simp only: first_run_cleared Promise_all_resolved)
  from e i have "export_then_import db now = (Inr (map fst (rd @ rp @ ra)), db)"
    by (simp add: export_then_import_def del: import.simps)
  then show ?thesis by simp
qed

lemma json_safe_clinic_db: "json_safe clinic_db"
  by (simp add: json_safe_def stored_def getAll_def transaction_def store_getAll_def
        clinic_db_doctors clinic_db_patients clinic_db_appointments doctors_store_def
        patients_store_def appointments_store_def json_record_samples)

theorem export_import_roundtrip_witness:
  "(\<exists>ks. export_then_import clinic_db sample_time = (Inr ks, clinic_db)) \<and>
   getAll (snd (export_then_import clinic_db sample_time)) ''patients'' None JNull = Inr [amal]"
  using export_import_roundtrip [OF reachable_clinic_db json_safe_clinic_db, of sample_time]
  by (simp add: getAll_def transaction_def clinic_db_patients store_getAll_def
        patients_store_def)

lemma nabil_db_eq:
  "nabil_db = (init app_config)(''patients'' \<mapsto> patients_store [(KStr ''p4'', nabil)])"
  by (simp add: nabil_db_def add_def transaction_def init_patients store_add_def
        patients_store_def extract_key_def nabil_def has_key_def index_conflict_def)

lemma nabil_through_json: "parse_obj (stringify_obj nabil) = nabil(''age'' \<mapsto> JNull)"
  by (rule ext) (simp add: parse_obj_def stringify_obj_def nabil_def)

text \<open>
  The claim C2 as the specification states it fails: a patient stored with the age
  \<open>NaN\<close> comes back from the round trip with the age \<open>null\<close>.
\<close>

theorem export_import_roundtrip_counterexample:
  "getAll nabil_db ''patients'' None JNull = Inr [nabil] \<and>
   getAll (snd (export_then_import nabil_db sample_time)) ''patients'' None JNull
     = Inr [nabil(''age'' \<mapsto> JNull)] \<and>
   nabil ''age'' = Some JNaN \<and> (nabil(''age'' \<mapsto> JNull)) ''age'' = Some JNull"
proof -
  have l: "nabil_db ''doctors'' = Some (doctors_store [])"
    "nabil_db ''patients'' = Some (patients_store [(KStr ''p4'', nabil)])"
    "nabil_db ''appointments'' = Some (appointments_store [])"
    by (simp_all add: nabil_db_eq init_app_config)
  have 1: "getAll nabil_db ''patients'' None JNull = Inr [nabil]"
    by (simp add: getAll_def transaction_def l(2) store_getAll_def patients_store_def)
  have e: "export app_config nabil_db sample_time =
      Inr (Text \<lparr>doc_doctors = Some [], doc_patients = Some [stringify_obj nabil],
                 doc_appointments = Some [], doc_exportedAt = Some (JsStr (toISOString sample_time)),
                 doc_version = Some (JsNum (cfg_version app_config))\<rparr>)"
    by (simp add: export_def getAll_def transaction_def l store_getAll_def doctors_store_def
          patients_store_def appointments_store_def)
  have k: "extract_key ''id'' (nabil(''age'' \<mapsto> JNull)) = Some (KStr ''p4'')"
    by (simp add: extract_key_def nabil_def)
  have c: "\<not> index_conflict (os_indexes (patients_store [])) [] (nabil(''age'' \<mapsto> JNull))"
    by (simp add: index_conflict_def patients_store_def extract_key_def nabil_def)
  have a: "add (init app_config) ''patients'' (nabil(''age'' \<mapsto> JNull)) =
      (Inr (KStr ''p4''),
       (init app_config)(''patients'' \<mapsto> patients_store [(KStr ''p4'', nabil(''age'' \<mapsto> JNull))]))"
    using add_ok [of "init app_config" "''patients''" "patients_store []"
        "nabil(''age'' \<mapsto> JNull)" "KStr ''p4''"] init_patients k c
    by (simp add: patients_store_def)
  have "import (init app_config)
          (Text \<lparr>doc_doctors = Some [], doc_patients = Some [stringify_obj nabil],
                 doc_appointments = Some [], doc_exportedAt = Some (JsStr (toISOString sample_time)),
                 doc_version = Some (JsNum (cfg_version app_config))\<rparr>) =
        (Inr [KStr ''p4''],
         (init app_config)(''patients'' \<mapsto> patients_store [(KStr ''p4'', nabil(''age'' \<mapsto> JNull))]))"
    using import_Text [of "init app_config" "doctors_store []" "patients_store []"
        "appointments_store []", OF init_doctors init_patients init_appointments]
    by (simp add: first_run_cleared import_adds_def nabil_through_json a Promise_all_def
          del: import.simps)
  with e have "snd (export_then_import nabil_db sample_time) =
      (init app_config)(''patients'' \<mapsto> patients_store [(KStr ''p4'', nabil(''age'' \<mapsto> JNull))])"
    by (simp add: export_then_import_def del: import.simps)
  then have 2: "getAll (snd (export_then_import nabil_db sample_time)) ''patients'' None JNull
     = Inr [nabil(''age'' \<mapsto> JNull)]"
    by (simp add: getAll_def transaction_def store_getAll_def patients_store_def)
  from 1 2 show ?thesis by (simp add: nabil_def)
qed

subsection \<open>The exported document\<close>

lemma is_digit_digit [simp]: "is_digit (digit n)"
  unfolding is_digit_def digit_def by (rule nth_mem) simp

lemma digit_not_plus [simp]: "digit n \<noteq> CHR ''+''"
  using is_digit_digit [of n] unfolding is_digit_def by auto

lemma of_char_digit: "of_char (digit n) = (48 + n mod 10 :: nat)"
proof -
  define k where "k = n mod 10"
  then have "k < 10" by simp
  then have "k = 0 \<or> k = 1 \<or> k = 2 \<or> k = 3 \<or> k = 4 \<or> k = 5 \<or> k = 6 \<or> k = 7 \<or> k = 8 \<or> k = 9"
    by arith
  then have "of_char (''0123456789'' ! k) = (48 + k :: nat)"
    by (elim disjE) simp_all
  then show ?thesis by (simp add: digit_def k_def)
qed

lemma number_pad2: "n < 100 \<Longrightarrow> number (pad2 n) = n"
proof -
  assume "n < 100"
  then have "n div 10 mod 10 = n div 10" by simp
  then show ?thesis by (simp add: number_def pad2_def of_char_digit)
qed

lemma day_within_year:
  "snd (year_and_day y d) < DaysInYear (fst (year_and_day y d))"
proof (induction y d rule: year_and_day.induct)
  case (1 y d)
  then show ?case by (subst (1 2) year_and_day.simps) simp
qed

lemma MonthFromTime_range: "MonthFromTime t \<le> 11"
  by (simp add: MonthFromTime_def Let_def)

lemma DateFromTime_range: "1 \<le> DateFromTime t \<and> DateFromTime t \<le> 31"
proof -
  have "DayWithinYear t < DaysInYear (YearFromTime t)"
    unfolding DayWithinYear_def YearFromTime_def by (rule day_within_year)
  then have "DayWithinYear t < 365 + InLeapYear t"
    by (auto simp: InLeapYear_def DaysInYear_def split: if_splits)
  moreover have "InLeapYear t \<le> 1" by (simp add: InLeapYear_def)
  ultimately show ?thesis
    by (auto simp: DateFromTime_def MonthFromTime_def Let_def split: if_splits)
qed

lemma toISOString_iso8601: "iso8601_utc (toISOString t)"
proof -
  have m: "1 \<le> number (pad2 (MonthFromTime t + 1))" "number (pad2 (MonthFromTime t + 1)) \<le> 12"
    using MonthFromTime_range [of t] by (simp_all add: number_pad2)
  have d: "1 \<le> number (pad2 (DateFromTime t))" "number (pad2 (DateFromTime t)) \<le> 31"
    using DateFromTime_range [of t] by (simp_all add: number_pad2)
  have h: "number (pad2 (HourFromTime t)) \<le> 23"
    by (simp add: number_pad2 HourFromTime_def)
  have n: "number (pad2 (MinFromTime t)) \<le> 59"
    by (simp add: number_pad2 MinFromTime_def)
  have s: "number (pad2 (SecFromTime t)) \<le> 59"
    by (simp add: number_pad2 SecFromTime_def)
  from m d h n s show ?thesis
    by (simp add: iso8601_utc_def iso_date_time_def toISOString_def pad2_def pad3_def pad4_def pad6_def)
qed

lemma year_and_day_sample: "year_and_day 1970 19844 = (2024, 121)"
  by (simp add: year_and_day.simps DaysInYear_def)

lemma toISOString_sample: "toISOString sample_time = ''2024-05-01T08:30:00.000Z''"
  by (simp add: toISOString_def sample_time_def YearFromTime_def DayWithinYear_def msPerDay_def
        year_and_day_sample MonthFromTime_def DateFromTime_def InLeapYear_def DaysInYear_def
        HourFromTime_def MinFromTime_def SecFromTime_def msFromTime_def pad2_def pad3_def
        pad4_def digit_def)

lemma same_value_stringify: "json_value v \<Longrightarrow> rel_option same_value (Some v) (stringify_val v)"
  by (cases v) simp_all

lemma same_record_stringify: "json_record item \<Longrightarrow> same_record item (stringify_obj item)"
  unfolding same_record_def stringify_obj_def json_record_def
  by (auto split: option.splits intro: same_value_stringify)

lemma same_records_stringify:
  "\<forall>item\<in>set items. json_record item \<Longrightarrow> list_all2 same_record items (map stringify_obj items)"
  by (induction items) (simp_all add: same_record_stringify)

lemma stringify_amal:
  "stringify_obj amal =
     [''id'' \<mapsto> JsStr ''p1'', ''name'' \<mapsto> JsStr ''Amal'', ''phone'' \<mapsto> JsStr ''0501'',
      ''age'' \<mapsto> JsNum 34]"
  by (rule ext) (simp add: stringify_obj_def amal_def)

lemma stringify_nabil:
  "stringify_obj nabil =
     [''id'' \<mapsto> JsStr ''p4'', ''name'' \<mapsto> JsStr ''Nabil'', ''phone'' \<mapsto> JsStr ''0504'',
      ''age'' \<mapsto> JsNull]"
  by (rule ext) (simp add: stringify_obj_def nabil_def)

text \<open>
  C9, as the code has it. On a database that has the three collections and whose
  records hold only values that JSON can write, \<^verbatim>\<open>export\<close> resolves with a JSON
  document whose members \<open>doctors\<close>, \<open>patients\<close> and \<open>appointments\<close> are
  arrays equal, record by record, to the lists that \<^verbatim>\<open>getAll\<close> gives for the three
  collections (and \<^verbatim>\<open>JSON.parse\<close> reads them back as these lists), whose member
  \<open>exportedAt\<close> is the ISO 8601 timestamp of the moment of the call, and whose member
  \<open>version\<close> is the number of the configured database version (2 in app.js).
\<close>

theorem export_document:
  assumes "db ''doctors'' = Some sd" and "db ''patients'' = Some sp"
    and "db ''appointments'' = Some sa" and "json_safe db"
  shows "\<exists>ds ps as jds jps jas timestamp.
           getAll db ''doctors'' None JNull = Inr ds \<and>
           getAll db ''patients'' None JNull = Inr ps \<and>
           getAll db ''appointments'' None JNull = Inr as \<and>
           export config db now =
             Inr (Text \<lparr>doc_doctors = Some jds, doc_patients = Some jps,
                        doc_appointments = Some jas,
                        doc_exportedAt = Some (JsStr timestamp),
                        doc_version = Some (JsNum (cfg_version config))\<rparr>) \<and>
           list_all2 same_record ds jds \<and> map parse_obj jds = ds \<and>
           list_all2 same_record ps jps \<and> map parse_obj jps = ps \<and>
           list_all2 same_record as jas \<and> map parse_obj jas = as \<and>
           timestamp = toISOString now \<and> iso8601_utc timestamp \<and>
           cfg_version app_config = 2"
proof -
  have g: "getAll db ''doctors'' None JNull = Inr (store_getAll sd)"
    "getAll db ''patients'' None JNull = Inr (store_getAll sp)"
    "getAll db ''appointments'' None JNull = Inr (store_getAll sa)"
    using assms(1-3) by (simp_all add: getAll_plain)
  from assms(4) g have j: "\<forall>item\<in>set (store_getAll sd). json_record item"
    "\<forall>item\<in>set (store_getAll sp). json_record item"
    "\<forall>item\<in>set (store_getAll sa). json_record item"
    by (simp_all add: json_safe_def stored_def)
  have e: "export config db now =
      Inr (Text \<lparr>doc_doctors = Some (map stringify_obj (store_getAll sd)),
                 doc_patients = Some (map stringify_obj (store_getAll sp)),
                 doc_appointments = Some (map stringify_obj (store_getAll sa)),
                 doc_exportedAt = Some (JsStr (toISOString now)),
                 doc_version = Some (JsNum (cfg_version config))\<rparr>)"
    by (simp add: export_def g)
  have v: "cfg_version app_config = 2" by (simp add: app_config_def)
  from j have s: "list_all2 same_record (store_getAll sd) (map stringify_obj (store_getAll sd))"
    "list_all2 same_record (store_getAll sp) (map stringify_obj (store_getAll sp))"
    "list_all2 same_record (store_getAll sa) (map stringify_obj (store_getAll sa))"
    by (simp_all only: same_records_stringify)
  from j have r: "map parse_obj (map stringify_obj (store_getAll sd)) = store_getAll sd"
    "map parse_obj (map stringify_obj (store_getAll sp)) = store_getAll sp"
    "map parse_obj (map stringify_obj (store_getAll sa)) = store_getAll sa"
    by (simp_all only: json_records_roundtrip)
  from g e s r v toISOString_iso8601 [of now] show ?thesis by blast
qed

theorem export_document_witness:
  "(\<exists>ds ps as jds jps jas timestamp.
      getAll clinic_db ''doctors'' None JNull = Inr ds \<and>
      getAll clinic_db ''patients'' None JNull = Inr ps \<and>
      getAll clinic_db ''appointments'' None JNull = Inr as \<and>
      export app_config clinic_db sample_time =
        Inr (Text \<lparr>doc_doctors = Some jds, doc_patients = Some jps,
                   doc_appointments = Some jas,
                   doc_exportedAt = Some (JsStr timestamp),
                   doc_version = Some (JsNum (cfg_version app_config))\<rparr>) \<and>
      list_all2 same_record ds jds \<and> map parse_obj jds = ds \<and>
      list_all2 same_record ps jps \<and> map parse_obj jps = ps \<and>
      list_all2 same_record as jas \<and> map parse_obj jas = as \<and>
      timestamp = toISOString sample_time \<and> iso8601_utc timestamp \<and>
      cfg_version app_config = 2) \<and>
   getAll clinic_db ''patients'' None JNull = Inr [amal] \<and>
   export app_config clinic_db sample_time =
     Inr (Text \<lparr>doc_doctors = Some [],
                doc_patients = Some
                  [[''id'' \<mapsto> JsStr ''p1'', ''name'' \<mapsto> JsStr ''Amal'',
                    ''phone'' \<mapsto> JsStr ''0501'', ''age'' \<mapsto> JsNum 34]],
                doc_appointments = Some [],
                doc_exportedAt = Some (JsStr ''2024-05-01T08:30:00.000Z''),
                doc_version = Some (JsNum 2)\<rparr>)"
proof -
  have g: "getAll clinic_db ''doctors'' None JNull = Inr []"
    "getAll clinic_db ''patients'' None JNull = Inr [amal]"
    "getAll clinic_db ''appointments'' None JNull = Inr []"
    by (simp_all add: getAll_def transaction_def clinic_db_doctors clinic_db_patients
          clinic_db_appointments store_getAll_def doctors_store_def patients_store_def
          appointments_store_def)
  have v: "cfg_version app_config = 2" by (simp add: app_config_def)
  have "export app_config clinic_db sample_time =
     Inr (Text \<lparr>doc_doctors = Some [],
                doc_patients = Some
                  [[''id'' \<mapsto> JsStr ''p1'', ''name'' \<mapsto> JsStr ''Amal'',
                    ''phone'' \<mapsto> JsStr ''0501'', ''age'' \<mapsto> JsNum 34]],
                doc_appointments = Some [],
                doc_exportedAt = Some (JsStr ''2024-05-01T08:30:00.000Z''),
                doc_version = Some (JsNum 2)\<rparr>)"
    by (simp add: export_def g stringify_amal toISOString_sample v)
  with g(2) export_document [of clinic_db "doctors_store []"
      "patients_store [(KStr ''p1'', amal)]" "appointments_store []" app_config sample_time,
      OF clinic_db_doctors clinic_db_patients clinic_db_appointments json_safe_clinic_db]
  show ?thesis by blast
qed

text \<open>
  The claim C9 as the specification states it fails: the collection holds a patient
  whose age is \<open>NaN\<close>, and the record of the exported array has the age \<open>null\<close>.
\<close>

theorem export_arrays_equal_counterexample:
  "getAll nabil_db ''patients'' None JNull = Inr [nabil] \<and>
   nabil ''age'' = Some JNaN \<and>
   export app_config nabil_db sample_time =
     Inr (Text \<lparr>doc_doctors = Some [],
                doc_patients = Some
                  [[''id'' \<mapsto> JsStr ''p4'', ''name'' \<mapsto> JsStr ''Nabil'',
                    ''phone'' \<mapsto> JsStr ''0504'', ''age'' \<mapsto> JsNull]],
                doc_appointments = Some [],
                doc_exportedAt = Some (JsStr ''2024-05-01T08:30:00.000Z''),
                doc_version = Some (JsNum 2)\<rparr>)"
proof -
  have g: "getAll nabil_db ''doctors'' None JNull = Inr []"
    "getAll nabil_db ''patients'' None JNull = Inr [nabil]"
    "getAll nabil_db ''appointments'' None JNull = Inr []"
    by (simp_all add: getAll_def transaction_def nabil_db_eq init_app_config store_getAll_def
          doctors_store_def patients_store_def appointments_store_def)
  have v: "cfg_version app_config = 2" by (simp add: app_config_def)
  have "export app_config nabil_db sample_time =
     Inr (Text \<lparr>doc_doctors = Some [],
                doc_patients = Some
                  [[''id'' \<mapsto> JsStr ''p4'', ''name'' \<mapsto> JsStr ''Nabil'',
                    ''phone'' \<mapsto> JsStr ''0504'', ''age'' \<mapsto> JsNull]],
                doc_appointments = Some [],
                doc_exportedAt = Some (JsStr ''2024-05-01T08:30:00.000Z''),
                doc_version = Some (JsNum 2)\<rparr>)"
    by (simp add: export_def g stringify_nabil toISOString_sample v)
  with g(2) show ?thesis by (simp add: nabil_def)
qed

section \<open>The upcoming appointments of the dashboard\<close>

lemma mset_insert_sorted [simp]: "mset (insert_sorted c x xs) = add_mset x (mset xs)"
  by (induction xs) auto

lemma mset_array_sort [simp]: "mset (array_sort c xs) = mset xs"
  by (induction xs) (simp_all add: array_sort_def)

lemma set_insert_sorted [simp]: "set (insert_sorted c x xs) = insert x (set xs)"
  by (induction xs) auto

lemma set_array_sort [simp]: "set (array_sort c xs) = set xs"
  using mset_array_sort [of c xs] by (metis set_mset_mset)

lemma sorted_insert_sorted:
  assumes total: "\<And>a b. a \<in> A \<Longrightarrow> b \<in> A \<Longrightarrow> c a b \<le> 0 \<or> c b a \<le> 0"
    and trans: "\<And>a b d. a \<in> A \<Longrightarrow> b \<in> A \<Longrightarrow> d \<in> A \<Longrightarrow> c a b \<le> 0 \<Longrightarrow> c b d \<le> 0 \<Longrightarrow> c a d \<le> 0"
    and "x \<in> A" and "set ys \<subseteq> A" and "sorted_wrt (\<lambda>a b. c a b \<le> 0) ys"
  shows "sorted_wrt (\<lambda>a b. c a b \<le> 0) (insert_sorted c x ys)"
  using assms(3-5)
proof (induction ys)
  case Nil
  then show ?case by simp
next
  case (Cons y ys)
  show ?case
  proof (cases "c x y \<le> 0")
    case True
    have "c x z \<le> 0" if "z \<in> set ys" for z
    proof -
      from that Cons.prems have "c y z \<le> 0" "z \<in> A" "y \<in> A" by auto
      with True Cons.prems(1) show ?thesis by (blast intro: trans)
    qed
    with True Cons.prems show ?thesis by auto
  next
    case False
    with total [of x y] Cons.prems have "c y x \<le> 0" by auto
    moreover have "sorted_wrt (\<lambda>a b. c a b \<le> 0) (insert_sorted c x ys)"
      using Cons by auto
    ultimately show ?thesis using False Cons.prems by auto
  qed
qed

lemma sorted_array_sort:
  assumes total: "\<And>a b. a \<in> A \<Longrightarrow> b \<in> A \<Longrightarrow> c a b \<le> 0 \<or> c b a \<le> 0"
    and trans: "\<And>a b d. a \<in> A \<Longrightarrow> b \<in> A \<Longrightarrow> d \<in> A \<Longrightarrow> c a b \<le> 0 \<Longrightarrow> c b d \<le> 0 \<Longrightarrow> c a d \<le> 0"
    and "set xs \<subseteq> A"
  shows "sorted_wrt (\<lambda>a b. c a b \<le> 0) (array_sort c xs)"
  using assms(3)
proof (induction xs)
  case Nil
  then show ?case by (simp add: array_sort_def)
next
  case (Cons x xs)
  then have "sorted_wrt (\<lambda>a b. c a b \<le> 0) (array_sort c xs)" by simp
  moreover from Cons.prems have "x \<in> A" "set (array_sort c xs) \<subseteq> A" by auto
  ultimately have "sorted_wrt (\<lambda>a b. c a b \<le> 0) (insert_sorted c x (array_sort c xs))"
    using total trans by (intro sorted_insert_sorted [where A = A]) blast+
  then show ?case by (simp add: array_sort_def)
qed

lemma compareAppointments_total:
  assumes "orders_linearly lc (date ` A \<union> time ` A)" and "a \<in> A" and "b \<in> A"
  shows "compareAppointments lc a b \<le> 0 \<or> compareAppointments lc b a \<le> 0"
proof -
  from assms have "lc (date a) (date b) \<le> 0 \<or> lc (date b) (date a) \<le> 0"
    "lc (time a) (time b) \<le> 0 \<or> lc (time b) (time a) \<le> 0"
    unfolding orders_linearly_def by blast+
  then show ?thesis by (auto simp: compareAppointments_def)
qed

lemma compareAppointments_trans:
  assumes l: "orders_linearly lc (date ` A \<union> time ` A)"
    and m: "a \<in> A" "b \<in> A" "d \<in> A"
    and ab: "compareAppointments lc a b \<le> 0" and bd: "compareAppointments lc b d \<le> 0"
  shows "compareAppointments lc a d \<le> 0"
proof -
  have dt: "lc x z \<le> 0" if "lc x y \<le> 0" "lc y z \<le> 0"
    "x \<in> date ` A \<union> time ` A" "y \<in> date ` A \<union> time ` A" "z \<in> date ` A \<union> time ` A"
    for x y z
    using l that unfolding orders_linearly_def by blast
  have anti: "x = y" if "lc x y \<le> 0" "lc y x \<le> 0"
    "x \<in> date ` A \<union> time ` A" "y \<in> date ` A \<union> time ` A" for x y
    using l that unfolding orders_linearly_def by blast
  have mem: "date a \<in> date ` A \<union> time ` A" "date b \<in> date ` A \<union> time ` A"
    "date d \<in> date ` A \<union> time ` A" "time a \<in> date ` A \<union> time ` A"
    "time b \<in> date ` A \<union> time ` A" "time d \<in> date ` A \<union> time ` A"
    using m by auto
  show ?thesis
  proof (cases "date a = date b")
    case ab_eq: True
    show ?thesis
    proof (cases "date b = date d")
      case True
      with ab_eq ab bd dt [OF _ _ mem(4) mem(5) mem(6)] show ?thesis
        by (simp add: compareAppointments_def)
    next
      case False
      with ab_eq bd show ?thesis by (simp add: compareAppointments_def)
    qed
  next
    case ab_ne: False
    show ?thesis
    proof (cases "date b = date d")
      case True
      with ab_ne ab show ?thesis by (simp add: compareAppointments_def)
    next
      case False
      with ab_ne ab bd have 1: "lc (date a) (date b) \<le> 0" "lc (date b) (date d) \<le> 0"
        by (simp_all add: compareAppointments_def)
      then have 2: "lc (date a) (date d) \<le> 0"
        by (rule dt [OF _ _ mem(1) mem(2) mem(3)])
      have "date a \<noteq> date d"
      proof
        assume "date a = date d"
        with 1 have "lc (date b) (date a) \<le> 0" by simp
        with 1(1) have "date a = date b" by (rule anti [OF _ _ mem(1) mem(2)])
        with ab_ne show False by simp
      qed
      with 2 show ?thesis by (simp add: compareAppointments_def)
    qed
  qed
qed

lemma compareAppointments_le:
  assumes "orders_linearly lc (date ` A \<union> time ` A)" and "a \<in> A" and "b \<in> A"
    and "compareAppointments lc a b \<le> 0"
  shows "lc (date a) (date b) \<le> 0 \<and> (date a = date b \<longrightarrow> lc (time a) (time b) \<le> 0)"
proof (cases "date a = date b")
  case True
  from assms(1,2) have "lc (date a) (date a) \<le> 0"
    unfolding orders_linearly_def by blast
  with True assms(4) show ?thesis by (simp add: compareAppointments_def)
next
  case False
  with assms(4) show ?thesis by (simp add: compareAppointments_def)
qed

text \<open>
  C10. The table of upcoming appointments shows the first ten entries of the list that
  holds exactly the appointments whose date is today or later, in ascending order of
  date and, for equal dates, of time, the order being that of \<^verbatim>\<open>localeCompare\<close>
  on the dates and times of the appointments.
\<close>

theorem upcoming_appointments_table:
  assumes "orders_linearly localeCompare (date ` set appts \<union> time ` set appts)"
  shows "\<exists>ordered.
           updateUpcomingAppointments localeCompare True today appts = Some (take 10 ordered) \<and>
           mset ordered = filter_mset (\<lambda>a. date a \<ge> today) (mset appts) \<and>
           sorted_wrt (\<lambda>a b. localeCompare (date a) (date b) \<le> 0 \<and>
                             (date a = date b \<longrightarrow> localeCompare (time a) (time b) \<le> 0)) ordered \<and>
           length (take 10 ordered) \<le> 10"
proof -
  let ?c = "compareAppointments localeCompare"
  let ?A = "set appts"
  let ?ordered = "array_sort ?c (filter (\<lambda>a. date a \<ge> today) appts)"
  have "sorted_wrt (\<lambda>a b. ?c a b \<le> 0) ?ordered"
  proof (rule sorted_array_sort [where A = ?A])
    show "?c a b \<le> 0 \<or> ?c b a \<le> 0" if "a \<in> ?A" "b \<in> ?A" for a b
      using assms that by (rule compareAppointments_total)
    show "?c a d \<le> 0" if "a \<in> ?A" "b \<in> ?A" "d \<in> ?A" "?c a b \<le> 0" "?c b d \<le> 0" for a b d
      using assms that by (rule compareAppointments_trans)
    show "set (filter (\<lambda>a. date a \<ge> today) appts) \<subseteq> ?A" by auto
  qed
  then have "sorted_wrt (\<lambda>a b. localeCompare (date a) (date b) \<le> 0 \<and>
                             (date a = date b \<longrightarrow> localeCompare (time a) (time b) \<le> 0)) ?ordered"
  proof (rule sorted_wrt_mono_rel [rotated])
    fix a b
    assume "a \<in> set ?ordered" "b \<in> set ?ordered" "?c a b \<le> 0"
    then show "localeCompare (date a) (date b) \<le> 0 \<and>
                 (date a = date b \<longrightarrow> localeCompare (time a) (time b) \<le> 0)"
      using compareAppointments_le [OF assms, of a b] by auto
  qed
  moreover have "mset ?ordered = filter_mset (\<lambda>a. date a \<ge> today) (mset appts)"
    by simp
  moreover have "updateUpcomingAppointments localeCompare True today appts = Some (take 10 ?ordered)"
    by (simp add: updateUpcomingAppointments_def upcoming_def)
  ultimately show ?thesis by (intro exI [of _ ?ordered]) simp
qed

lemma code_unit_compare_linear: "orders_linearly code_unit_compare S"
  by (auto simp: orders_linearly_def code_unit_compare_def)

theorem upcoming_appointments_table_witness:
  "(\<exists>ordered.
     updateUpcomingAppointments code_unit_compare True ''2024-05-01''
       [appt ''a1'' ''2024-05-03'' ''10:00'', appt ''a2'' ''2024-04-30'' ''09:00'',
        appt ''a3'' ''2024-05-01'' ''16:30'', appt ''a4'' ''2024-05-03'' ''08:15'']
       = Some (take 10 ordered) \<and>
     mset ordered = {#appt ''a1'' ''2024-05-03'' ''10:00'', appt ''a3'' ''2024-05-01'' ''16:30'',
                     appt ''a4'' ''2024-05-03'' ''08:15''#} \<and>
     sorted_wrt (\<lambda>a b. code_unit_compare (date a) (date b) \<le> 0 \<and>
                       (date a = date b \<longrightarrow> code_unit_compare (time a) (time b) \<le> 0)) ordered \<and>
     length (take 10 ordered) \<le> 10) \<and>
   updateUpcomingAppointments code_unit_compare True ''2024-05-01''
     [appt ''a1'' ''2024-05-03'' ''10:00'', appt ''a2'' ''2024-04-30'' ''09:00'',
      appt ''a3'' ''2024-05-01'' ''16:30'', appt ''a4'' ''2024-05-03'' ''08:15'']
     = Some [appt ''a3'' ''2024-05-01'' ''16:30'', appt ''a4'' ''2024-05-03'' ''08:15'',
             appt ''a1'' ''2024-05-03'' ''10:00'']"
proof -
  have "\<exists>ordered.
     updateUpcomingAppointments code_unit_compare True ''2024-05-01''
       [appt ''a1'' ''2024-05-03'' ''10:00'', appt ''a2'' ''2024-04-30'' ''09:00'',
        appt ''a3'' ''2024-05-01'' ''16:30'', appt ''a4'' ''2024-05-03'' ''08:15'']
       = Some (take 10 ordered) \<and>
     mset ordered = {#appt ''a1'' ''2024-05-03'' ''10:00'', appt ''a3'' ''2024-05-01'' ''16:30'',
                     appt ''a4'' ''2024-05-03'' ''08:15''#} \<and>
     sorted_wrt (\<lambda>a b. code_unit_compare (date a) (date b) \<le> 0 \<and>
                       (date a = date b \<longrightarrow> code_unit_compare (time a) (time b) \<le> 0)) ordered \<and>
     length (take 10 ordered) \<le> 10"
    using upcoming_appointments_table [of code_unit_compare
      "[appt ''a1'' ''2024-05-03'' ''10:00'', appt ''a2'' ''2024-04-30'' ''09:00'',
        appt ''a3'' ''2024-05-01'' ''16:30'', appt ''a4'' ''2024-05-03'' ''08:15'']"
      "''2024-05-01''", OF code_unit_compare_linear]
    by (simp add: appt_def)
  moreover have "updateUpcomingAppointments code_unit_compare True ''2024-05-01''
     [appt ''a1'' ''2024-05-03'' ''10:00'', appt ''a2'' ''2024-04-30'' ''09:00'',
      appt ''a3'' ''2024-05-01'' ''16:30'', appt ''a4'' ''2024-05-03'' ''08:15'']
     = Some [appt ''a3'' ''2024-05-01'' ''16:30'', appt ''a4'' ''2024-05-03'' ''08:15'',
             appt ''a1'' ''2024-05-03'' ''10:00'']"
    by (simp add: updateUpcomingAppointments_def upcoming_def array_sort_def
          compareAppointments_def code_unit_compare_def appt_def)
  ultimately show ?thesis by (rule conjI)
qed

end
